theory Spec2Isabelle
  imports Main "HOL-Library.Word"
begin

section \<open>Python values used by \<open>email_processor.py\<close>\<close>

text \<open>
  A \<open>bytes\<close> object is a list of 8-bit words.  A \<open>str\<close> is a list of Unicode code
  points; \<open>lit\<close> turns an ASCII literal of the source into such a list.
\<close>

type_synonym byte = "8 word"
type_synonym bytes = "byte list"
type_synonym pystr = "nat list"

definition lit :: "string \<Rightarrow> pystr" where
  "lit s = map of_char s"

datatype error =
    OverflowError | ZeroDivisionError | OSError | TypeError | StreamError | ContainerError
  | UnicodeEncodeError

text \<open>
  The values stored under the scalar keys of \<open>email_data\<close>: \<open>None\<close>, a \<open>str\<close>, or a
  \<open>datetime\<close>.  A \<open>datetime\<close> is identified by its number of microseconds since
  0001-01-01T00:00:00, the first instant \<open>datetime\<close> can represent.
\<close>

datatype pyval = PNone | PStr pystr | PDatetime int

text \<open>Python truthiness, as used by \<open>not x\<close>, \<open>x or y\<close> and \<open>if x\<close>.\<close>

fun truthy :: "pyval \<Rightarrow> bool" where
  "truthy PNone = False"
| "truthy (PStr s) = (s \<noteq> [])"
| "truthy (PDatetime d) = True"

section \<open>Property decoder\<close>

subsection \<open>\<open>int.from_bytes(data, 'little')\<close>\<close>

fun from_bytes_little :: "bytes \<Rightarrow> nat" where
  "from_bytes_little [] = 0"
| "from_bytes_little (b # bs) = unat b + 256 * from_bytes_little bs"

subsection \<open>\<open>filetime / 10\<close>: true division of integers, correctly rounded to a double\<close>

text \<open>
  A non-negative finite double is kept as a pair \<open>(m, s)\<close> standing for \<open>m * 2 ^ s\<close>.
  \<open>int / int\<close> returns the double nearest to the exact quotient, ties going to the even
  mantissa, and raises \<open>OverflowError\<close> when that is beyond the largest double.
\<close>

type_synonym pyfloat = "nat \<times> int"

fun bit_length :: "nat \<Rightarrow> nat" where
  "bit_length n = (if n = 0 then 0 else Suc (bit_length (n div 2)))"

declare bit_length.simps [simp del]

text \<open>\<open>n / d\<close> rounded to the nearest integer, ties to even.\<close>

definition div_half_even :: "nat \<Rightarrow> nat \<Rightarrow> nat" where
  "div_half_even n d =
     (let q = n div d; r = n mod d
      in if 2 * r < d then q
         else if d < 2 * r then q + 1
         else if even q then q else q + 1)"

text \<open>The exponent \<open>e\<close> with \<open>2 ^ e \<le> a / b < 2 ^ (e + 1)\<close>, for positive \<open>a\<close> and \<open>b\<close>.\<close>

definition quotient_exponent :: "nat \<Rightarrow> nat \<Rightarrow> int" where
  "quotient_exponent a b =
     (let d = int (bit_length a) - int (bit_length b)
      in if (if 0 \<le> d then b * 2 ^ nat d \<le> a else b \<le> a * 2 ^ nat (- d))
         then d else d - 1)"

definition true_divide :: "nat \<Rightarrow> nat \<Rightarrow> error + pyfloat" where
  "true_divide a b =
     (if b = 0 then Inl ZeroDivisionError
      else if a = 0 then Inr (0, 0)
      else
        let s = max (quotient_exponent a b - 52) (- 1074);
            m = (if 0 \<le> s then div_half_even a (b * 2 ^ nat s)
                 else div_half_even (a * 2 ^ nat (- s)) b)
        in if 0 \<le> s \<and> 2 ^ 1024 \<le> m * 2 ^ nat s then Inl OverflowError
           else Inr (m, s))"

subsection \<open>\<open>timedelta(microseconds=x)\<close> and \<open>datetime + timedelta\<close>\<close>

text \<open>
  \<open>timedelta\<close> rounds a float number of microseconds to the nearest integer, ties to
  even, and raises \<open>OverflowError\<close> when the number of days exceeds 999999999.
\<close>

definition float_round :: "pyfloat \<Rightarrow> nat" where
  "float_round x =
     (case x of (m, s) \<Rightarrow>
        if 0 \<le> s then m * 2 ^ nat s else div_half_even m (2 ^ nat (- s)))"

definition us_per_day :: int where
  "us_per_day = 86400000000"

definition timedelta_microseconds :: "pyfloat \<Rightarrow> error + int" where
  "timedelta_microseconds x =
     (let us = int (float_round x)
      in if 999999999 < us div us_per_day then Inl OverflowError else Inr us)"

text \<open>
  The proleptic Gregorian calendar of \<open>datetime\<close>: the days before 1 January of a year,
  counted from 0001-01-01.  \<open>datetime(y, 1, 1)\<close> is midnight of that day; the last
  representable instant is one microsecond before \<open>10000-01-01\<close>.
\<close>

definition days_before_year :: "nat \<Rightarrow> nat" where
  "days_before_year year =
     (let y = year - 1 in y * 365 + y div 4 - y div 100 + y div 400)"

definition datetime_jan1 :: "nat \<Rightarrow> int" where
  "datetime_jan1 year = int (days_before_year year) * us_per_day"

definition datetime_max :: int where
  "datetime_max = datetime_jan1 10000 - 1"

definition datetime_add :: "int \<Rightarrow> int \<Rightarrow> error + int" where
  "datetime_add d delta =
     (let r = d + delta
      in if r < 0 \<or> datetime_max < r then Inl OverflowError else Inr r)"

subsection \<open>\<open>_parse_filetime\<close>\<close>

definition Unknown :: pystr where
  "Unknown = lit ''Unknown''"

text \<open>The body of the \<open>try\<close> block: every exception it raises is an \<open>Inl\<close>.\<close>

definition parse_filetime_try :: "bytes \<Rightarrow> error + int" where
  "parse_filetime_try data =
     (let filetime = from_bytes_little data;
          epoch = datetime_jan1 1601
      in case true_divide filetime 10 of
           Inl e \<Rightarrow> Inl e
         | Inr x \<Rightarrow>
             (case timedelta_microseconds x of
                Inl e \<Rightarrow> Inl e
              | Inr delta \<Rightarrow> datetime_add epoch delta))"

text \<open>
  \<open>except Exception\<close>: the error is printed and \<open>"Unknown"\<close> is returned.  What
  is printed is a fixed ASCII text and the ASCII message of the \<open>OverflowError\<close>.
\<close>

definition parse_filetime :: "bytes \<Rightarrow> error + pyval" where
  "parse_filetime data =
     (case parse_filetime_try data of
        Inl e \<Rightarrow> Inr (PStr Unknown)
      | Inr d \<Rightarrow> Inr (PDatetime d))"

subsection \<open>\<open>x.decode('utf-16-le', errors='ignore').rstrip('\x00')\<close>\<close>

text \<open>
  The decoder reads two bytes per code unit.  With \<open>errors='ignore'\<close>: a lone low
  surrogate is skipped; a high surrogate that is not followed by a low one is skipped and
  decoding resumes at the unit after it; a high surrogate with fewer than two bytes after
  it, or a single trailing byte, ends the decoding.
\<close>

definition code_unit :: "byte \<Rightarrow> byte \<Rightarrow> nat" where
  "code_unit lo hi = unat lo + 256 * unat hi"

definition is_surrogate :: "nat \<Rightarrow> bool" where
  "is_surrogate ch = (0xD800 \<le> ch \<and> ch \<le> 0xDFFF)"

definition is_high_surrogate :: "nat \<Rightarrow> bool" where
  "is_high_surrogate ch = (0xD800 \<le> ch \<and> ch \<le> 0xDBFF)"

definition is_low_surrogate :: "nat \<Rightarrow> bool" where
  "is_low_surrogate ch = (0xDC00 \<le> ch \<and> ch \<le> 0xDFFF)"

definition join_surrogates :: "nat \<Rightarrow> nat \<Rightarrow> nat" where
  "join_surrogates hi lo = 0x10000 + (hi - 0xD800) * 0x400 + (lo - 0xDC00)"

fun decode_utf16le :: "bytes \<Rightarrow> pystr" where
  "decode_utf16le (lo # hi # rest) =
     (let ch = code_unit lo hi
      in if \<not> is_surrogate ch then ch # decode_utf16le rest
         else if \<not> is_high_surrogate ch then decode_utf16le rest
         else (case rest of
                 lo2 # hi2 # rest2 \<Rightarrow>
                   if is_low_surrogate (code_unit lo2 hi2)
                   then join_surrogates ch (code_unit lo2 hi2) # decode_utf16le rest2
                   else decode_utf16le rest
               | _ \<Rightarrow> []))"
| "decode_utf16le _ = []"

definition rstrip_nul :: "pystr \<Rightarrow> pystr" where
  "rstrip_nul s = rev (dropWhile (\<lambda>c. c = 0) (rev s))"

definition decode_text :: "bytes \<Rightarrow> pystr" where
  "decode_text x = rstrip_nul (decode_utf16le x)"

subsection \<open>String helpers\<close>

definition startswith :: "pystr \<Rightarrow> pystr \<Rightarrow> bool" where
  "startswith s p = (take (length p) s = p)"

definition endswith :: "pystr \<Rightarrow> pystr \<Rightarrow> bool" where
  "endswith s p = (length p \<le> length s \<and> drop (length s - length p) s = p)"

text \<open>
  \<open>str.lower\<close>, on the ASCII letters.  It is only used to test a path for the suffixes
  \<open>.msg\<close> and \<open>.eml\<close>, whose characters are lower-case images of ASCII letters alone.
\<close>

definition lower :: "pystr \<Rightarrow> pystr" where
  "lower s = map (\<lambda>c. if 65 \<le> c \<and> c \<le> 90 then c + 32 else c) s"

section \<open>The container reader\<close>

text \<open>
  An entry of the compound file is a stream or a directory with children.  What
  \<open>doc.open(entry)\<close> followed by \<open>stream.read()\<close> gives for a stream is part of the
  entry: the bytes, \<open>None\<close> in place of the stream, or an exception.
\<close>

datatype read_result = ReadOk bytes | ReadNone | ReadError

datatype entry = Stream pystr read_result | Dir pystr "entry list"

fun name :: "entry \<Rightarrow> pystr" where
  "name (Stream n r) = n"
| "name (Dir n es) = n"

fun isdir :: "entry \<Rightarrow> bool" where
  "isdir (Stream n r) = False"
| "isdir (Dir n es) = True"

fun children :: "entry \<Rightarrow> entry list" where
  "children (Stream n r) = []"
| "children (Dir n es) = es"

text \<open>
  \<open>with doc.open(entry) as stream\<close> and \<open>stream.read()\<close>: \<open>Inr None\<close> when the stream
  is \<open>None\<close>, \<open>Inl\<close> when opening or reading raises (a directory cannot be opened).
\<close>

fun open_read :: "entry \<Rightarrow> error + bytes option" where
  "open_read (Stream n (ReadOk d)) = Inr (Some d)"
| "open_read (Stream n ReadNone) = Inr None"
| "open_read (Stream n ReadError) = Inl StreamError"
| "open_read (Dir n es) = Inl StreamError"

section \<open>Printing\<close>

text \<open>
  What the processor uses of the operating system and of library functions it does not
  define: \<open>os.path.join\<close>; whether \<open>open(path, "wb")\<close> succeeds;
  \<open>body.decode("utf-8", errors="ignore").strip()\<close>;
  \<open>datetime.strptime(s, "%a, %d %b %Y %H:%M:%S %z")\<close> (\<open>None\<close> for \<open>ValueError\<close>);
  the characters beyond ASCII that the encoding of \<open>sys.stdout\<close> has; and \<open>str(e)\<close>,
  the text of an exception as an f-string prints it.
\<close>

record env =
  path_join :: "pystr \<Rightarrow> pystr \<Rightarrow> pystr"
  open_wb :: "pystr \<Rightarrow> bool"
  decode_utf8_strip :: "bytes \<Rightarrow> pystr"
  strptime :: "pystr \<Rightarrow> int option"
  stdout_encodes :: "nat \<Rightarrow> bool"
  str_exc :: "error \<Rightarrow> pystr"

text \<open>
  \<open>print(text)\<close> raises \<open>UnicodeEncodeError\<close> when the encoding of \<open>sys.stdout\<close>
  lacks a character of the text.  The ASCII characters every such encoding has.  The
  result is the exception raised, if any.
\<close>

definition encodable :: "env \<Rightarrow> pystr \<Rightarrow> bool" where
  "encodable os text = list_all (\<lambda>c. c < 128 \<or> stdout_encodes os c) text"

definition py_print :: "env \<Rightarrow> pystr \<Rightarrow> error option" where
  "py_print os text = (if encodable os text then None else Some UnicodeEncodeError)"

text \<open>
  A \<open>for\<close> loop over a list whose body may raise: the state when the loop ends, and
  the exception that ended it, if one did.
\<close>

fun for_each :: "('s \<Rightarrow> 'a \<Rightarrow> error option \<times> 's) \<Rightarrow> 's \<Rightarrow> 'a list \<Rightarrow> error option \<times> 's" where
  "for_each body s [] = (None, s)"
| "for_each body s (x # xs) =
     (case body s x of
        (Some e, s') \<Rightarrow> (Some e, s')
      | (None, s') \<Rightarrow> for_each body s' xs)"

section \<open>The processor\<close>

record email_record =
  From :: pyval
  To :: "pystr list"
  Sent_On :: pyval
  CC :: pyval
  Subject :: pyval
  Body :: pyval

text \<open>
  The object \<open>self\<close>.  \<open>written\<close> is not an attribute of the class: it lists, in
  order, the files the processor has written as pairs of path and content.
\<close>

record processor =
  file_path :: pystr
  output_dir :: pystr
  email_data :: email_record
  attachments :: "pystr list"
  written :: "(pystr \<times> bytes) list"

text \<open>
  \<open>__init__\<close>.  It also creates the output directory, which the processor does not
  read afterwards.
\<close>

definition init :: "pystr \<Rightarrow> pystr \<Rightarrow> processor" where
  "init path dir =
     \<lparr> file_path = path, output_dir = dir,
       email_data = \<lparr> From = PNone, To = [], Sent_On = PNone, CC = PNone,
                      Subject = PNone, Body = PNone \<rparr>,
       attachments = [], written = [] \<rparr>"

subsection \<open>\<open>_extract_metadata\<close>\<close>

datatype field = FFrom | FSubject | FBody | FCC | FSentOn

fun get_field :: "field \<Rightarrow> email_record \<Rightarrow> pyval" where
  "get_field FFrom r = From r"
| "get_field FSubject r = Subject r"
| "get_field FBody r = Body r"
| "get_field FCC r = CC r"
| "get_field FSentOn r = Sent_On r"

fun set_field :: "field \<Rightarrow> pyval \<Rightarrow> email_record \<Rightarrow> email_record" where
  "set_field FFrom v r = r\<lparr>From := v\<rparr>"
| "set_field FSubject v r = r\<lparr>Subject := v\<rparr>"
| "set_field FBody v r = r\<lparr>Body := v\<rparr>"
| "set_field FCC v r = r\<lparr>CC := v\<rparr>"
| "set_field FSentOn v r = r\<lparr>Sent_On := v\<rparr>"

definition text_value :: "bytes \<Rightarrow> error + pyval" where
  "text_value x = Inr (PStr (decode_text x))"

definition mappings :: "(pystr \<times> field \<times> (bytes \<Rightarrow> error + pyval)) list" where
  "mappings =
     [(lit ''__substg1.0_0C1A001F'', FFrom, text_value),
      (lit ''__substg1.0_0037001F'', FSubject, text_value),
      (lit ''__substg1.0_1000001F'', FBody, text_value),
      (lit ''__substg1.0_0E03001F'', FCC, text_value),
      (lit ''__substg1.0_00390040'', FSentOn, parse_filetime),
      (lit ''__substg1.0_0E060040'', FSentOn, parse_filetime)]"

text \<open>
  The body of the \<open>try\<close> block of \<open>_extract_metadata\<close>.  The \<open>print\<close> for a stream
  that is \<open>None\<close> is inside it.
\<close>

definition extract_metadata_try :: "env \<Rightarrow> entry \<Rightarrow> processor \<Rightarrow> error + processor" where
  "extract_metadata_try os entry self =
     (case open_read entry of
        Inl e \<Rightarrow> Inl e
      | Inr None \<Rightarrow>
          (case py_print os (lit ''Stream is None for entry: '' @ name entry) of
             Some e \<Rightarrow> Inl e
           | None \<Rightarrow> Inr self)
      | Inr (Some data) \<Rightarrow>
          (case map_of mappings (name entry) of
             None \<Rightarrow> Inr self
           | Some (key, func) \<Rightarrow>
               if key \<noteq> FSentOn \<or> \<not> truthy (Sent_On (email_data self))
               then (case func data of
                       Inl e \<Rightarrow> Inl e
                     | Inr v \<Rightarrow> Inr (self\<lparr>email_data := set_field key v (email_data self)\<rparr>))
               else Inr self))"

text \<open>
  \<open>_extract_metadata\<close>: the exception that leaves the call, if any, and the processor
  after it.  Only the \<open>print\<close> of the handler can raise out of it.
\<close>

definition extract_metadata :: "env \<Rightarrow> entry \<Rightarrow> processor \<Rightarrow> error option \<times> processor" where
  "extract_metadata os entry self =
     (if \<not> isdir entry
      then (case extract_metadata_try os entry self of
              Inl e \<Rightarrow>
                (py_print os
                   (lit ''Error extracting metadata from '' @ name entry @ lit '': '' @ str_exc os e),
                 self)
            | Inr self' \<Rightarrow> (None, self'))
      else (None, self))"

subsection \<open>\<open>_extract_recipients\<close>\<close>

definition recipient_try :: "env \<Rightarrow> entry \<Rightarrow> processor \<Rightarrow> error + processor" where
  "recipient_try os recip_stream self =
     (case open_read recip_stream of
        Inl e \<Rightarrow> Inl e
      | Inr None \<Rightarrow>
          (case py_print os (lit ''Stream is None for recipient: '' @ name recip_stream) of
             Some e \<Rightarrow> Inl e
           | None \<Rightarrow> Inr self)
      | Inr (Some data) \<Rightarrow>
          Inr (self\<lparr>email_data :=
                 (email_data self)\<lparr>To := To (email_data self) @ [decode_text data]\<rparr>\<rparr>))"

definition recipient_step :: "env \<Rightarrow> processor \<Rightarrow> entry \<Rightarrow> error option \<times> processor" where
  "recipient_step os self recip_stream =
     (if name recip_stream = lit ''__substg1.0_3003001F''
      then (case recipient_try os recip_stream self of
              Inl e \<Rightarrow>
                (py_print os
                   (lit ''Error extracting recipient from '' @ name recip_stream @ lit '': ''
                      @ str_exc os e),
                 self)
            | Inr self' \<Rightarrow> (None, self'))
      else (None, self))"

definition extract_recipients :: "env \<Rightarrow> entry \<Rightarrow> processor \<Rightarrow> error option \<times> processor" where
  "extract_recipients os entry self =
     (if isdir entry \<and> startswith (name entry) (lit ''__recip_version1.0_'')
      then for_each (recipient_step os) self (children entry)
      else (None, self))"

subsection \<open>\<open>_save_attachment\<close>\<close>

record attachment =
  data :: "bytes option"
  filename :: "pystr option"
  mime_type :: "pystr option"

definition mime_to_ext :: "(pystr \<times> pystr) list" where
  "mime_to_ext =
     [(lit ''application/pdf'', lit ''.pdf''),
      (lit ''text/plain'', lit ''.txt''),
      (lit ''image/jpeg'', lit ''.jpg''),
      (lit ''image/png'', lit ''.png''),
      (lit ''application/msword'', lit ''.doc'')]"

text \<open>\<open>s.replace(char, '.')\<close> for a one-character \<open>char\<close>.\<close>

definition replace_char :: "nat \<Rightarrow> pystr \<Rightarrow> pystr" where
  "replace_char char s = map (\<lambda>c. if c = char then 46 else c) s"

text \<open>
  The nine characters of the string the loop runs over, in its order: less-than,
  greater-than, colon, double quote, slash, backslash, vertical bar, question mark, star.
\<close>

definition forbidden :: pystr where
  "forbidden = [60, 62, 58, 34, 47, 92, 124, 63, 42]"

text \<open>The loop \<open>for char in ...: base_filename = base_filename.replace(char, '.')\<close>.\<close>

definition sanitize :: "pystr \<Rightarrow> pystr" where
  "sanitize base_filename = foldl (\<lambda>b char. replace_char char b) base_filename forbidden"

text \<open>\<open>entry_name[-8:]\<close>: the last eight characters, or all of a shorter name.\<close>

definition last8 :: "pystr \<Rightarrow> pystr" where
  "last8 s = drop (length s - 8) s"

definition base_name :: "attachment \<Rightarrow> pystr \<Rightarrow> pystr" where
  "base_name att entry_name =
     (case filename att of
        Some f \<Rightarrow> if f \<noteq> [] then f else lit ''attachment_'' @ last8 entry_name
      | None \<Rightarrow> lit ''attachment_'' @ last8 entry_name)"

definition extension :: "attachment \<Rightarrow> pystr \<Rightarrow> pystr" where
  "extension att base_filename =
     (if 46 \<notin> set base_filename
      then (case mime_type att of
              None \<Rightarrow> lit ''.bin''
            | Some m \<Rightarrow> (case map_of mime_to_ext m of None \<Rightarrow> lit ''.bin'' | Some e \<Rightarrow> e))
      else [])"

text \<open>
  The result is the returned file name or the exception raised, with the processor as
  the call leaves it.  \<open>open\<close> creates the file before \<open>f.write\<close> runs; writing \<open>None\<close>
  raises \<open>TypeError\<close>.  The path is printed after the file is written and before the
  name is returned: when that \<open>print\<close> raises, the file is there and nothing is returned.
\<close>

definition save_attachment ::
  "env \<Rightarrow> attachment \<Rightarrow> pystr \<Rightarrow> processor \<Rightarrow> (error + pystr) \<times> processor" where
  "save_attachment os att entry_name self =
     (let base_filename = sanitize (base_name att entry_name);
          ext = extension att base_filename;
          fname = base_filename @ ext;
          filepath = path_join os (output_dir self) fname
      in if \<not> open_wb os filepath then (Inl OSError, self)
         else (case data att of
                 None \<Rightarrow> (Inl TypeError, self\<lparr>written := written self @ [(filepath, [])]\<rparr>)
               | Some d \<Rightarrow>
                   (case py_print os (lit ''Saved attachment: '' @ filepath) of
                      Some e \<Rightarrow> (Inl e, self\<lparr>written := written self @ [(filepath, d)]\<rparr>)
                    | None \<Rightarrow> (Inr fname, self\<lparr>written := written self @ [(filepath, d)]\<rparr>))))"

subsection \<open>\<open>_extract_attachment\<close>\<close>

definition empty_attachment :: attachment where
  "empty_attachment = \<lparr> data = None, filename = None, mime_type = None \<rparr>"

text \<open>The body of the \<open>try\<close> block inside the loop over the children.\<close>

definition attachment_try :: "env \<Rightarrow> entry \<Rightarrow> attachment \<Rightarrow> error + attachment" where
  "attachment_try os stream_entry att =
     (case open_read stream_entry of
        Inl e \<Rightarrow> Inl e
      | Inr None \<Rightarrow>
          (case py_print os (lit ''Stream is None for attachment: '' @ name stream_entry) of
             Some e \<Rightarrow> Inl e
           | None \<Rightarrow> Inr att)
      | Inr (Some d) \<Rightarrow>
          if name stream_entry = lit ''__substg1.0_37010102'' then Inr (att\<lparr>data := Some d\<rparr>)
          else if name stream_entry = lit ''__substg1.0_370E001F''
                  \<or> name stream_entry = lit ''__substg1.0_3707001F''
               then Inr (att\<lparr>filename := Some (decode_text d)\<rparr>)
          else if name stream_entry = lit ''__substg1.0_3704001F''
               then Inr (att\<lparr>mime_type := Some (decode_text d)\<rparr>)
          else Inr att)"

definition attachment_step :: "env \<Rightarrow> attachment \<Rightarrow> entry \<Rightarrow> error option \<times> attachment" where
  "attachment_step os att stream_entry =
     (if \<not> isdir stream_entry
      then (case attachment_try os stream_entry att of
              Inl e \<Rightarrow>
                (py_print os
                   (lit ''Error extracting attachment from '' @ name stream_entry @ lit '': ''
                      @ str_exc os e),
                 att)
            | Inr att' \<Rightarrow> (None, att'))
      else (None, att))"

text \<open>The loop over the children of the group, from the fresh attachment.\<close>

definition scan_attachment :: "env \<Rightarrow> entry list \<Rightarrow> error option \<times> attachment" where
  "scan_attachment os es = for_each (attachment_step os) empty_attachment es"

text \<open>\<open>if attachment["data"]\<close>: neither \<open>None\<close> nor empty.\<close>

definition has_data :: "attachment \<Rightarrow> bool" where
  "has_data att = (case data att of None \<Rightarrow> False | Some d \<Rightarrow> d \<noteq> [])"

definition extract_attachment :: "env \<Rightarrow> entry \<Rightarrow> processor \<Rightarrow> error option \<times> processor" where
  "extract_attachment os entry self =
     (if isdir entry \<and> startswith (name entry) (lit ''__attach_version1.0_'')
      then (case scan_attachment os (children entry) of
              (Some e, att) \<Rightarrow> (Some e, self)
            | (None, att) \<Rightarrow>
                if has_data att
                then (case save_attachment os att (name entry) self of
                        (Inr fname, self') \<Rightarrow>
                          (None, self'\<lparr>attachments := attachments self' @ [fname]\<rparr>)
                      | (Inl e, self') \<Rightarrow>
                          (py_print os
                             (lit ''Error saving attachment for '' @ name entry @ lit '': ''
                                @ str_exc os e),
                           self'))
                else (None, self))
      else (None, self))"

subsection \<open>\<open>_process_msg\<close>\<close>

text \<open>
  The file at \<open>file_path\<close>, as the two parsers see it: the root entries when
  \<open>CompoundFileReader\<close> accepts it, and the message \<open>BytesParser\<close> makes of it.
\<close>

record eml_part =
  content_type :: pystr
  content_disposition :: "pystr option"
  payload :: "error + bytes option"
  part_filename :: "pystr option"

record eml_message =
  hdr_From :: "pystr option"
  hdr_To :: "pystr option"
  hdr_CC :: "pystr option"
  hdr_Subject :: "pystr option"
  hdr_Date :: "pystr option"
  walk :: "eml_part list"

record file_content =
  as_compound :: "entry list option"
  as_message :: eml_message

text \<open>\<open>CompoundFileReader(path)\<close> raises for a missing file and for one it cannot read.\<close>

definition CompoundFileReader :: "file_content option \<Rightarrow> error + entry list" where
  "CompoundFileReader file =
     (case file of
        None \<Rightarrow> Inl OSError
      | Some c \<Rightarrow> (case as_compound c of None \<Rightarrow> Inl ContainerError | Some root \<Rightarrow> Inr root))"

text \<open>The body of the \<open>try\<close> block inside the loop over \<open>doc.root\<close>: three calls.\<close>

definition process_entry_try :: "env \<Rightarrow> processor \<Rightarrow> entry \<Rightarrow> error option \<times> processor" where
  "process_entry_try os self entry =
     (case extract_metadata os entry self of
        (Some e, self1) \<Rightarrow> (Some e, self1)
      | (None, self1) \<Rightarrow>
          (case extract_recipients os entry self1 of
             (Some e, self2) \<Rightarrow> (Some e, self2)
           | (None, self2) \<Rightarrow> extract_attachment os entry self2))"

text \<open>The body of the loop: the \<open>try\<close> block and its handler, whose \<open>print\<close> may raise.\<close>

definition process_entry :: "env \<Rightarrow> processor \<Rightarrow> entry \<Rightarrow> error option \<times> processor" where
  "process_entry os self entry =
     (case process_entry_try os self entry of
        (Some e, self') \<Rightarrow>
          (py_print os
             (lit ''Error processing entry '' @ name entry @ lit '': '' @ str_exc os e),
           self')
      | (None, self') \<Rightarrow> (None, self'))"

text \<open>The body of the outer \<open>try\<close> block: opening the file and the loop.\<close>

definition process_msg_try ::
  "env \<Rightarrow> file_content option \<Rightarrow> processor \<Rightarrow> error option \<times> processor" where
  "process_msg_try os file self =
     (case CompoundFileReader file of
        Inl e \<Rightarrow> (Some e, self)
      | Inr root \<Rightarrow> for_each (process_entry os) self root)"

text \<open>
  \<open>_process_msg\<close>: the exception that leaves the call, if any, and the processor
  after it.  The outer handler prints the path and the exception.
\<close>

definition process_msg ::
  "env \<Rightarrow> file_content option \<Rightarrow> processor \<Rightarrow> error option \<times> processor" where
  "process_msg os file self =
     (case process_msg_try os file self of
        (Some e, self') \<Rightarrow>
          (py_print os
             (lit ''Failed to process .msg file '' @ file_path self @ lit '': '' @ str_exc os e),
           self')
      | (None, self') \<Rightarrow> (None, self'))"

subsection \<open>\<open>_process_eml\<close>\<close>

text \<open>\<open>s.split(", ")\<close>, with the part read so far as first argument.\<close>

fun split_comma_space :: "pystr \<Rightarrow> pystr \<Rightarrow> pystr list" where
  "split_comma_space acc (a # b # cs) =
     (if a = 44 \<and> b = 32 then acc # split_comma_space [] cs
      else split_comma_space (acc @ [a]) (b # cs))"
| "split_comma_space acc cs = [acc @ cs]"

text \<open>\<open>sub in s\<close> on strings.\<close>

fun contains :: "pystr \<Rightarrow> pystr \<Rightarrow> bool" where
  "contains sub [] = (sub = [])"
| "contains sub (c # cs) = (startswith (c # cs) sub \<or> contains sub cs)"

text \<open>The decimal digits of a number, as an f-string prints it.\<close>

fun str_nat :: "nat \<Rightarrow> pystr" where
  "str_nat n = (if n < 10 then [48 + n] else str_nat (n div 10) @ [48 + n mod 10])"

declare str_nat.simps [simp del]

text \<open>\<open>msg.get(name, default)\<close>.\<close>

definition get_or :: "'a option \<Rightarrow> 'a \<Rightarrow> 'a" where
  "get_or h dflt = (case h of None \<Rightarrow> dflt | Some v \<Rightarrow> v)"

definition nonempty :: "pystr option \<Rightarrow> bool" where
  "nonempty h = (case h of None \<Rightarrow> False | Some v \<Rightarrow> v \<noteq> [])"

text \<open>
  The loop of \<open>_extract_eml_body\<close>: the decoded body of the first text part that has
  one, \<open>None\<close> when the loop ends without \<open>break\<close>, or the exception of a \<open>print\<close>
  in the handler.
\<close>

fun find_eml_body :: "env \<Rightarrow> eml_part list \<Rightarrow> error + pystr option" where
  "find_eml_body os [] = Inr None"
| "find_eml_body os (part # parts) =
     (if startswith (content_type part) (lit ''text/'') \<and> \<not> nonempty (content_disposition part)
      then (case payload part of
              Inl e \<Rightarrow>
                (case py_print os (lit ''Error decoding body: '' @ str_exc os e) of
                   Some e' \<Rightarrow> Inl e'
                 | None \<Rightarrow> find_eml_body os parts)
            | Inr None \<Rightarrow> find_eml_body os parts
            | Inr (Some body) \<Rightarrow>
                if body \<noteq> [] then Inr (Some (decode_utf8_strip os body))
                else find_eml_body os parts)
      else find_eml_body os parts)"

definition extract_eml_body ::
  "env \<Rightarrow> eml_message \<Rightarrow> processor \<Rightarrow> error option \<times> processor" where
  "extract_eml_body os msg self =
     (case find_eml_body os (walk msg) of
        Inl e \<Rightarrow> (Some e, self)
      | Inr (Some body) \<Rightarrow> (None, self\<lparr>email_data := (email_data self)\<lparr>Body := PStr body\<rparr>\<rparr>)
      | Inr None \<Rightarrow>
          (None,
           self\<lparr>email_data :=
                  (email_data self)\<lparr>Body := PStr (lit ''No body content found in .eml file.'')\<rparr>\<rparr>))"

text \<open>
  The body of the loop of \<open>_extract_eml_attachments\<close>.  Nothing catches what \<open>open\<close>,
  \<open>get_payload\<close> or \<open>print\<close> raises.
\<close>

definition eml_attachment_step ::
  "env \<Rightarrow> processor \<Rightarrow> eml_part \<Rightarrow> error option \<times> processor" where
  "eml_attachment_step os self part =
     (if nonempty (content_disposition part)
         \<and> contains (lit ''attachment'') (get_or (content_disposition part) [])
      then
        let fname = (if nonempty (part_filename part) then get_or (part_filename part) []
                     else lit ''attachment_'' @ str_nat (length (attachments self)) @ lit ''.bin'');
            filepath = path_join os (output_dir self) fname
        in if \<not> open_wb os filepath then (Some OSError, self)
           else (case payload part of
                   Inl e \<Rightarrow> (Some e, self\<lparr>written := written self @ [(filepath, [])]\<rparr>)
                 | Inr pl \<Rightarrow>
                     (py_print os (lit ''Saved attachment: '' @ filepath),
                      self\<lparr>written := written self @ [(filepath, get_or pl [])],
                            attachments := attachments self @ [fname]\<rparr>))
      else (None, self))"

definition extract_eml_attachments ::
  "env \<Rightarrow> eml_message \<Rightarrow> processor \<Rightarrow> error option \<times> processor" where
  "extract_eml_attachments os msg self = for_each (eml_attachment_step os) self (walk msg)"

definition eml_headers :: "env \<Rightarrow> eml_message \<Rightarrow> email_record \<Rightarrow> email_record" where
  "eml_headers os msg r =
     (let r1 = r\<lparr>From := PStr (get_or (hdr_From msg) (lit ''Unknown Sender''))\<rparr>;
          r2 = r1\<lparr>To := (if nonempty (hdr_To msg)
                           then split_comma_space [] (get_or (hdr_To msg) []) else [])\<rparr>;
          r3 = r2\<lparr>CC := PStr (get_or (hdr_CC msg) [])\<rparr>;
          r4 = r3\<lparr>Subject := PStr (get_or (hdr_Subject msg) (lit ''No Subject''))\<rparr>
      in if nonempty (hdr_Date msg)
         then (case strptime os (get_or (hdr_Date msg) []) of
                 Some d \<Rightarrow> r4\<lparr>Sent_On := PDatetime d\<rparr>
               | None \<Rightarrow> r4\<lparr>Sent_On := PStr Unknown\<rparr>)
         else r4)"

text \<open>\<open>open(self.file_path, "rb")\<close> raises for a missing file, and nothing catches it.\<close>

definition process_eml ::
  "env \<Rightarrow> file_content option \<Rightarrow> processor \<Rightarrow> error option \<times> processor" where
  "process_eml os file self =
     (case file of
        None \<Rightarrow> (Some OSError, self)
      | Some c \<Rightarrow>
          let msg = as_message c;
              self1 = self\<lparr>email_data := eml_headers os msg (email_data self)\<rparr>
          in (case extract_eml_body os msg self1 of
                (Some e, self2) \<Rightarrow> (Some e, self2)
              | (None, self2) \<Rightarrow> extract_eml_attachments os msg self2))"

subsection \<open>\<open>process\<close>\<close>

text \<open>
  The value returned, \<open>(self.email_data, self.attachments)\<close>, or the exception that
  leaves \<open>process\<close>; and the processor afterwards.
\<close>

definition process ::
  "env \<Rightarrow> file_content option \<Rightarrow> processor
     \<Rightarrow> (error + email_record \<times> pystr list) \<times> processor" where
  "process os file self =
     (if endswith (lower (file_path self)) (lit ''.msg'')
      then (case process_msg os file self of
              (Some e, self') \<Rightarrow> (Inl e, self')
            | (None, self') \<Rightarrow> (Inr (email_data self', attachments self'), self'))
      else if endswith (lower (file_path self)) (lit ''.eml'')
      then (case process_eml os file self of
              (Some e, self') \<Rightarrow> (Inl e, self')
            | (None, self') \<Rightarrow> (Inr (email_data self', attachments self'), self'))
      else (Inr (email_data self, attachments self), self))"

section \<open>Vocabulary of the statements\<close>

text \<open>
  Two environments for the examples.  In both every file can be written and paths are
  joined with a slash.  The first has a standard output that encodes every character,
  the second one that encodes ASCII alone.
\<close>

definition example_env :: env where
  "example_env =
     \<lparr> path_join = (\<lambda>a b. a @ [47] @ b), open_wb = (\<lambda>p. True),
       decode_utf8_strip = (\<lambda>b. map unat b), strptime = (\<lambda>s. None),
       stdout_encodes = (\<lambda>c. True), str_exc = (\<lambda>e. []) \<rparr>"

definition ascii_env :: env where
  "ascii_env =
     \<lparr> path_join = (\<lambda>a b. a @ [47] @ b), open_wb = (\<lambda>p. True),
       decode_utf8_strip = (\<lambda>b. map unat b), strptime = (\<lambda>s. None),
       stdout_encodes = (\<lambda>c. False), str_exc = (\<lambda>e. []) \<rparr>"

text \<open>A file that \<open>CompoundFileReader\<close> opens, with the given root entries.\<close>

definition compound_file :: "entry list \<Rightarrow> file_content option" where
  "compound_file root =
     Some \<lparr> as_compound = Some root,
            as_message = \<lparr> hdr_From = None, hdr_To = None, hdr_CC = None, hdr_Subject = None,
                           hdr_Date = None, walk = [] \<rparr> \<rparr>"

text \<open>A stream that is read and whose name is one of the given identifiers.\<close>

fun read_under :: "pystr list \<Rightarrow> entry \<Rightarrow> bool" where
  "read_under ids (Stream n (ReadOk d)) = (n \<in> set ids)"
| "read_under ids e = False"

text \<open>An occurrence of the attachment file name among the children of a group.\<close>

fun sets_filename :: "entry \<Rightarrow> bool" where
  "sets_filename (Stream n (ReadOk d)) =
     (n = lit ''__substg1.0_370E001F'' \<or> n = lit ''__substg1.0_3707001F'')"
| "sets_filename e = False"

text \<open>The identifiers under which each scalar field is stored.\<close>

fun field_ids :: "field \<Rightarrow> pystr list" where
  "field_ids FFrom = [lit ''__substg1.0_0C1A001F'']"
| "field_ids FSubject = [lit ''__substg1.0_0037001F'']"
| "field_ids FBody = [lit ''__substg1.0_1000001F'']"
| "field_ids FCC = [lit ''__substg1.0_0E03001F'']"
| "field_ids FSentOn = [lit ''__substg1.0_00390040'', lit ''__substg1.0_0E060040'']"

text \<open>
  The root entries of an example message: each of the four text properties twice, and
  the two sent-timestamp properties, tick count 0 under \<open>0E060040\<close> before tick count
  116444736000000000 under \<open>00390040\<close>.
\<close>

definition example_root :: "entry list" where
  "example_root =
     [Stream (lit ''__substg1.0_0C1A001F'') (ReadOk [97, 0]),
      Stream (lit ''__substg1.0_0037001F'') (ReadOk [97, 0]),
      Stream (lit ''__substg1.0_1000001F'') (ReadOk [97, 0]),
      Stream (lit ''__substg1.0_0E03001F'') (ReadOk [97, 0]),
      Stream (lit ''__substg1.0_0E060040'') (ReadOk [0, 0, 0, 0, 0, 0, 0, 0]),
      Stream (lit ''__substg1.0_0C1A001F'') (ReadOk [98, 0, 0, 0]),
      Stream (lit ''__substg1.0_0037001F'') (ReadOk [99, 0]),
      Stream (lit ''__substg1.0_1000001F'') (ReadOk [100, 0]),
      Stream (lit ''__substg1.0_0E03001F'') (ReadOk [101, 0]),
      Stream (lit ''__substg1.0_00390040'')
        (ReadOk [0, 0x80, 0x3E, 0xD5, 0xDE, 0xB1, 0x9D, 0x01])]"

section \<open>Loops\<close>

lemma for_each_append:
  "for_each body s (xs @ ys) =
     (case for_each body s xs of
        (Some e, s') \<Rightarrow> (Some e, s')
      | (None, s') \<Rightarrow> for_each body s' ys)"
  by (induction xs arbitrary: s) (auto split: prod.splits option.splits)

lemma for_each_invariant:
  assumes "\<And>s x. x \<in> set xs \<Longrightarrow> P s \<Longrightarrow> P (snd (body s x))" and "P s"
  shows "P (snd (for_each body s xs))"
  using assms
proof (induction xs arbitrary: s)
  case Nil
  then show ?case by simp
next
  case (Cons x xs)
  have p: "P (snd (body s x))" using Cons.prems by simp
  show ?case
  proof (cases "body s x")
    case (Pair r s')
    with p have ps': "P s'" by simp
    show ?thesis
    proof (cases r)
      case None
      with Pair show ?thesis using Cons.IH [of s'] Cons.prems(1) ps' by simp
    next
      case (Some e)
      with Pair ps' show ?thesis by simp
    qed
  qed
qed

lemma for_each_no_exception:
  assumes "\<And>s x. x \<in> set xs \<Longrightarrow> fst (body s x) = None"
  shows "fst (for_each body s xs) = None"
  using assms
proof (induction xs arbitrary: s)
  case Nil
  then show ?case by simp
next
  case (Cons x xs)
  have "fst (body s x) = None" using Cons.prems by simp
  then obtain s' where "body s x = (None, s')" by (cases "body s x") auto
  then show ?case using Cons.IH [of s'] Cons.prems by simp
qed

lemma encodable_all: "(\<And>c. stdout_encodes os c) \<Longrightarrow> encodable os text"
  by (simp add: encodable_def list_all_iff)

lemma py_print_all: "(\<And>c. stdout_encodes os c) \<Longrightarrow> py_print os text = None"
  by (simp add: py_print_def encodable_all)

section \<open>The scalar fields of a traversal\<close>

lemma get_set_field: "get_field k (set_field k' v r) = (if k = k' then v else get_field k r)"
  by (cases k; cases k') simp_all

lemma get_field_To_update [simp]: "get_field k (r\<lparr>To := t\<rparr>) = get_field k r"
  by (cases k) simp_all

lemma recipient_step_field:
  "get_field k (email_data (snd (recipient_step os p c))) = get_field k (email_data p)"
  by (simp add: recipient_step_def recipient_try_def split: sum.splits option.splits)

lemma extract_recipients_field [simp]:
  "get_field k (email_data (snd (extract_recipients os e p))) = get_field k (email_data p)"
proof -
  have "get_field k (email_data (snd (for_each (recipient_step os) p cs)))
          = get_field k (email_data p)" for cs
    by (rule for_each_invariant [where P = "\<lambda>s. get_field k (email_data s) = get_field k (email_data p)"])
       (simp_all add: recipient_step_field)
  then show ?thesis by (simp add: extract_recipients_def)
qed

lemma save_attachment_email_data [simp]:
  "email_data (snd (save_attachment os att n p)) = email_data p"
  by (simp add: save_attachment_def Let_def split: option.splits)

lemma save_attachment_email_data_result:
  "save_attachment os att n p = (r, p') \<Longrightarrow> email_data p' = email_data p"
  using save_attachment_email_data [of os att n p] by simp

lemma extract_attachment_email_data [simp]:
  "email_data (snd (extract_attachment os e p)) = email_data p"
  by (auto simp: extract_attachment_def split: prod.splits option.splits sum.splits
      dest: save_attachment_email_data_result)

lemma process_entry_field:
  "get_field k (email_data (snd (process_entry os p e)))
     = get_field k (email_data (snd (extract_metadata os e p)))"
proof -
  obtain r1 s1 where m: "extract_metadata os e p = (r1, s1)" by (cases "extract_metadata os e p")
  obtain r2 s2 where r: "extract_recipients os e s1 = (r2, s2)"
    by (cases "extract_recipients os e s1")
  obtain r3 s3 where a: "extract_attachment os e s2 = (r3, s3)"
    by (cases "extract_attachment os e s2")
  have f2: "get_field k (email_data s2) = get_field k (email_data s1)"
    using extract_recipients_field [of k os e s1] r by simp
  have f3: "get_field k (email_data s3) = get_field k (email_data s2)"
    using extract_attachment_email_data [of os e s2] a by simp
  show ?thesis
    using f2 f3
    by (simp add: process_entry_def process_entry_try_def m r a split: option.splits)
qed

lemma parse_filetime_truthy: "parse_filetime d = Inr v \<Longrightarrow> truthy v"
  by (auto simp: parse_filetime_def Unknown_def lit_def split: sum.splits)

lemma parse_filetime_total: "\<exists>v. parse_filetime d = Inr v"
  by (simp add: parse_filetime_def split: sum.splits)

lemma mappings_field_ids:
  "map_of mappings n = Some (k, f) \<Longrightarrow> n \<in> set (field_ids k)"
  by (auto simp: mappings_def split: if_splits)

lemma mappings_of_id:
  "n \<in> set (field_ids k) \<Longrightarrow>
   map_of mappings n = Some (k, if k = FSentOn then parse_filetime else text_value)"
  by (cases k) (auto simp: mappings_def lit_def)

lemma extract_metadata_keep:
  "\<not> read_under (field_ids k) e \<Longrightarrow>
   get_field k (email_data (snd (extract_metadata os e p))) = get_field k (email_data p)"
proof (cases e)
  case (Dir n es)
  then show ?thesis by (simp add: extract_metadata_def)
next
  case (Stream n r)
  assume a: "\<not> read_under (field_ids k) e"
  show ?thesis
  proof (cases r)
    case (ReadOk d)
    with Stream a have "\<And>f. map_of mappings n \<noteq> Some (k, f)"
      using mappings_field_ids [of n k] by auto
    with Stream ReadOk show ?thesis
      by (auto simp: extract_metadata_def extract_metadata_try_def get_set_field
          split: option.splits sum.splits)
  next
    case ReadNone
    with Stream show ?thesis
      by (simp add: extract_metadata_def extract_metadata_try_def split: option.splits)
  next
    case ReadError
    with Stream show ?thesis by (simp add: extract_metadata_def extract_metadata_try_def)
  qed
qed

lemma extract_metadata_sent_keep:
  "truthy (Sent_On (email_data p)) \<Longrightarrow>
   Sent_On (email_data (snd (extract_metadata os e p))) = Sent_On (email_data p)"
proof (cases "read_under (field_ids FSentOn) e")
  case False
  then show ?thesis using extract_metadata_keep [of FSentOn e os p] by simp
next
  case True
  assume t: "truthy (Sent_On (email_data p))"
  obtain n d where e: "e = Stream n (ReadOk d)"
  proof (cases e)
    case (Stream n r)
    then show ?thesis using True that by (cases r) auto
  next
    case (Dir n es)
    then show ?thesis using True by simp
  qed
  with True have "n \<in> set (field_ids FSentOn)" by simp
  then have "map_of mappings n = Some (FSentOn, parse_filetime)"
    using mappings_of_id [of n FSentOn] by simp
  then show ?thesis using t e
    by (simp add: extract_metadata_def extract_metadata_try_def)
qed

lemma extract_metadata_read:
  assumes "n \<in> set (field_ids k)"
  shows "fst (extract_metadata os (Stream n (ReadOk d)) p) = None"
    and "k \<noteq> FSentOn \<Longrightarrow>
         get_field k (email_data (snd (extract_metadata os (Stream n (ReadOk d)) p)))
           = PStr (decode_text d)"
    and "k = FSentOn \<Longrightarrow> \<not> truthy (Sent_On (email_data p)) \<Longrightarrow>
         parse_filetime d
           = Inr (Sent_On (email_data (snd (extract_metadata os (Stream n (ReadOk d)) p))))"
  using mappings_of_id [OF assms] parse_filetime_total [of d]
  by (auto simp: extract_metadata_def extract_metadata_try_def text_value_def get_set_field)

lemma process_entry_read_stream:
  "fst (extract_metadata os (Stream n (ReadOk d)) p) = None \<Longrightarrow>
   process_entry os p (Stream n (ReadOk d))
     = (None, snd (extract_metadata os (Stream n (ReadOk d)) p))"
  by (cases "extract_metadata os (Stream n (ReadOk d)) p")
     (simp add: process_entry_def process_entry_try_def extract_recipients_def
        extract_attachment_def)

lemma traversal_keep:
  "\<forall>e \<in> set es. \<not> read_under (field_ids k) e \<Longrightarrow>
   get_field k (email_data (snd (for_each (process_entry os) p es))) = get_field k (email_data p)"
  by (rule for_each_invariant
        [where P = "\<lambda>s. get_field k (email_data s) = get_field k (email_data p)"])
     (simp_all add: process_entry_field extract_metadata_keep)

lemma traversal_sent_keep:
  "truthy (Sent_On (email_data p)) \<Longrightarrow>
   Sent_On (email_data (snd (for_each (process_entry os) p es))) = Sent_On (email_data p)"
proof -
  assume t: "truthy (Sent_On (email_data p))"
  have "truthy (Sent_On (email_data (snd (for_each (process_entry os) p es)))) \<and>
        Sent_On (email_data (snd (for_each (process_entry os) p es))) = Sent_On (email_data p)"
  proof (rule for_each_invariant
        [where P = "\<lambda>s. truthy (Sent_On (email_data s)) \<and> Sent_On (email_data s) = Sent_On (email_data p)"])
    fix s :: processor and x
    assume "truthy (Sent_On (email_data s)) \<and> Sent_On (email_data s) = Sent_On (email_data p)"
    then show "truthy (Sent_On (email_data (snd (process_entry os s x)))) \<and>
               Sent_On (email_data (snd (process_entry os s x))) = Sent_On (email_data p)"
      using process_entry_field [of FSentOn os s x] extract_metadata_sent_keep [of s os x] t
      by simp
  next
    show "truthy (Sent_On (email_data p)) \<and> Sent_On (email_data p) = Sent_On (email_data p)"
      using t by simp
  qed
  then show ?thesis by simp
qed

lemma process_msg_state:
  "snd (process_msg os (compound_file root) p) = snd (for_each (process_entry os) p root)"
  by (simp add: process_msg_def process_msg_try_def compound_file_def CompoundFileReader_def
      split: prod.splits option.splits)

lemma process_msg_try_compound:
  "process_msg_try os (compound_file root) p = for_each (process_entry os) p root"
  by (simp add: process_msg_try_def compound_file_def CompoundFileReader_def)

text \<open>The traversal once it has reached a stream that is read, and what follows.\<close>

lemma traversal_reaches:
  assumes "fst (for_each (process_entry os) p es1) = None"
    and "n \<in> set (field_ids k)"
  shows "for_each (process_entry os) p (es1 @ Stream n (ReadOk d) # es2)
           = for_each (process_entry os)
               (snd (extract_metadata os (Stream n (ReadOk d))
                       (snd (for_each (process_entry os) p es1)))) es2"
proof -
  obtain s1 where s1: "for_each (process_entry os) p es1 = (None, s1)"
    using assms(1) by (cases "for_each (process_entry os) p es1") auto
  have "process_entry os s1 (Stream n (ReadOk d))
          = (None, snd (extract_metadata os (Stream n (ReadOk d)) s1))"
    by (rule process_entry_read_stream) (rule extract_metadata_read(1) [OF assms(2)])
  then show ?thesis by (simp add: for_each_append s1)
qed

lemma parse_filetime_zero8:
  "parse_filetime [0, 0, 0, 0, 0, 0, 0, 0] = Inr (PDatetime (datetime_jan1 1601))"
  by (simp add: parse_filetime_def parse_filetime_try_def true_divide_def
      timedelta_microseconds_def float_round_def datetime_add_def datetime_max_def
      datetime_jan1_def days_before_year_def us_per_day_def)

lemma traversal_of_read_streams:
  assumes "\<forall>e \<in> set es. \<exists>n d. e = Stream n (ReadOk d)"
  shows "fst (for_each (process_entry os) p es) = None"
proof (rule for_each_no_exception)
  fix s x
  assume "x \<in> set es"
  then obtain n d where x: "x = Stream n (ReadOk d)" using assms by blast
  have "fst (extract_metadata os (Stream n (ReadOk d)) s) = None"
  proof (cases "map_of mappings n")
    case None
    then show ?thesis by (simp add: extract_metadata_def extract_metadata_try_def)
  next
    case (Some kf)
    then obtain k f where kf: "map_of mappings n = Some (k, f)" by (cases kf) auto
    then have "n \<in> set (field_ids k)" by (rule mappings_field_ids)
    then show ?thesis by (rule extract_metadata_read(1))
  qed
  then show "fst (process_entry os s x) = None"
    using process_entry_read_stream [of os n d s] x by simp
qed

text \<open>
  Claim C1.  Take a traversal of the root entries that reaches a stream that is read,
  that is, nothing is raised out of the loop before it.  If the stream bears
  \<open>__substg1.0_00390040\<close> or \<open>__substg1.0_0E060040\<close>, \<open>Sent On\<close> was not set and
  no stream read under either identifier came before, then at the end \<open>Sent On\<close> is
  what \<open>_parse_filetime\<close> made of this stream, whatever follows it, later
  sent-timestamp streams included.  If the stream bears the identifier of \<open>From\<close>
  (\<open>0C1A001F\<close>), \<open>Subject\<close> (\<open>0037001F\<close>), \<open>Body\<close> (\<open>1000001F\<close>) or \<open>CC\<close>
  (\<open>0E03001F\<close>) and no stream read under that identifier follows, then at the end the
  field is the decoded text of this stream, whatever came before it.
\<close>

theorem sent_on_first_wins_others_last_wins:
  fixes n :: pystr and d :: bytes and es1 es2 :: "entry list"
  assumes "fst (process_msg_try os (compound_file es1) self) = None"
  defines "final \<equiv>
    email_data (snd (process_msg os (compound_file (es1 @ Stream n (ReadOk d) # es2)) self))"
  shows
    "((n = lit ''__substg1.0_00390040'' \<or> n = lit ''__substg1.0_0E060040'') \<longrightarrow>
      \<not> truthy (Sent_On (email_data self)) \<longrightarrow>
      (\<forall>e \<in> set es1.
          \<not> read_under [lit ''__substg1.0_00390040'', lit ''__substg1.0_0E060040''] e) \<longrightarrow>
        parse_filetime d = Inr (Sent_On final)) \<and>
     (n = lit ''__substg1.0_0C1A001F'' \<longrightarrow>
      (\<forall>e \<in> set es2. \<not> read_under [lit ''__substg1.0_0C1A001F''] e) \<longrightarrow>
        From final = PStr (decode_text d)) \<and>
     (n = lit ''__substg1.0_0037001F'' \<longrightarrow>
      (\<forall>e \<in> set es2. \<not> read_under [lit ''__substg1.0_0037001F''] e) \<longrightarrow>
        Subject final = PStr (decode_text d)) \<and>
     (n = lit ''__substg1.0_1000001F'' \<longrightarrow>
      (\<forall>e \<in> set es2. \<not> read_under [lit ''__substg1.0_1000001F''] e) \<longrightarrow>
        Body final = PStr (decode_text d)) \<and>
     (n = lit ''__substg1.0_0E03001F'' \<longrightarrow>
      (\<forall>e \<in> set es2. \<not> read_under [lit ''__substg1.0_0E03001F''] e) \<longrightarrow>
        CC final = PStr (decode_text d))"
proof -
  let ?T = "for_each (process_entry os)"
  let ?p1 = "snd (?T self es1)"
  let ?p2 = "snd (extract_metadata os (Stream n (ReadOk d)) ?p1)"
  have done1: "fst (?T self es1) = None"
    using assms(1) by (simp add: process_msg_try_compound)
  have reach: "n \<in> set (field_ids k) \<Longrightarrow> final = email_data (snd (?T ?p2 es2))" for k
    unfolding final_def by (simp add: process_msg_state traversal_reaches [OF done1])
  have last_wins: "get_field k final = PStr (decode_text d)"
    if "n \<in> set (field_ids k)" "k \<noteq> FSentOn" "\<forall>e \<in> set es2. \<not> read_under (field_ids k) e" for k
  proof -
    have "get_field k (email_data ?p2) = PStr (decode_text d)"
      by (rule extract_metadata_read(2) [OF that(1,2)])
    then show ?thesis using traversal_keep [OF that(3), of os ?p2] reach [OF that(1)] by simp
  qed
  have first_wins: "parse_filetime d = Inr (Sent_On final)"
    if n: "n \<in> set (field_ids FSentOn)" and s: "\<not> truthy (Sent_On (email_data self))"
      and q: "\<forall>e \<in> set es1. \<not> read_under (field_ids FSentOn) e"
  proof -
    have "Sent_On (email_data ?p1) = Sent_On (email_data self)"
      using traversal_keep [OF q, of os self] by simp
    then have n1: "\<not> truthy (Sent_On (email_data ?p1))" using s by simp
    have v: "parse_filetime d = Inr (Sent_On (email_data ?p2))"
      by (rule extract_metadata_read(3) [OF n _ n1]) simp
    then have "truthy (Sent_On (email_data ?p2))" by (rule parse_filetime_truthy)
    then have "Sent_On (email_data (snd (?T ?p2 es2))) = Sent_On (email_data ?p2)"
      by (rule traversal_sent_keep)
    then show ?thesis using v reach [OF n] by simp
  qed
  show ?thesis
    using first_wins last_wins [of FFrom] last_wins [of FSubject] last_wins [of FBody]
      last_wins [of FCC]
    by simp
qed

lemma example_traversal_completes:
  "\<forall>e \<in> set es. \<exists>n d. e = Stream n (ReadOk d) \<Longrightarrow>
   fst (process_msg_try os (compound_file es) p) = None"
  by (simp add: process_msg_try_compound traversal_of_read_streams)

text \<open>
  In the example message \<open>Sent On\<close> ends as the first timestamp, 1601-01-01T00:00:00,
  and the four text fields end as their second values.
\<close>

theorem sent_on_first_wins_others_last_wins_witness:
  "Sent_On (email_data (snd (process_msg example_env (compound_file example_root)
      (init (lit ''a.msg'') (lit ''out''))))) = PDatetime (datetime_jan1 1601) \<and>
   From (email_data (snd (process_msg example_env (compound_file example_root)
      (init (lit ''a.msg'') (lit ''out''))))) = PStr [98] \<and>
   Subject (email_data (snd (process_msg example_env (compound_file example_root)
      (init (lit ''a.msg'') (lit ''out''))))) = PStr [99] \<and>
   Body (email_data (snd (process_msg example_env (compound_file example_root)
      (init (lit ''a.msg'') (lit ''out''))))) = PStr [100] \<and>
   CC (email_data (snd (process_msg example_env (compound_file example_root)
      (init (lit ''a.msg'') (lit ''out''))))) = PStr [101]"
proof -
  let ?init = "init (lit ''a.msg'') (lit ''out'')"
  let ?a = "Stream (lit ''__substg1.0_0C1A001F'') (ReadOk [97, 0])"
  let ?b = "Stream (lit ''__substg1.0_0037001F'') (ReadOk [97, 0])"
  let ?c = "Stream (lit ''__substg1.0_1000001F'') (ReadOk [97, 0])"
  let ?d = "Stream (lit ''__substg1.0_0E03001F'') (ReadOk [97, 0])"
  let ?s1 = "Stream (lit ''__substg1.0_0E060040'') (ReadOk [0, 0, 0, 0, 0, 0, 0, 0])"
  let ?a2 = "Stream (lit ''__substg1.0_0C1A001F'') (ReadOk [98, 0, 0, 0])"
  let ?b2 = "Stream (lit ''__substg1.0_0037001F'') (ReadOk [99, 0])"
  let ?c2 = "Stream (lit ''__substg1.0_1000001F'') (ReadOk [100, 0])"
  let ?d2 = "Stream (lit ''__substg1.0_0E03001F'') (ReadOk [101, 0])"
  let ?s2 = "Stream (lit ''__substg1.0_00390040'')
               (ReadOk [0, 0x80, 0x3E, 0xD5, 0xDE, 0xB1, 0x9D, 0x01])"
  have falsy: "\<not> truthy (Sent_On (email_data ?init))" by (simp add: init_def)
  have dec: "decode_text [98, 0, 0, 0] = [98]" "decode_text [99, 0] = [99]"
    "decode_text [100, 0] = [100]" "decode_text [101, 0] = [101]"
    by (simp_all add: decode_text_def rstrip_nul_def code_unit_def is_surrogate_def)
  have sent: "parse_filetime [0, 0, 0, 0, 0, 0, 0, 0]
      = Inr (Sent_On (email_data (snd (process_msg example_env
          (compound_file ([?a, ?b, ?c, ?d] @ ?s1 # [?a2, ?b2, ?c2, ?d2, ?s2])) ?init))))"
    using sent_on_first_wins_others_last_wins
      [where os = example_env and ?es1.0 = "[?a, ?b, ?c, ?d]" and self = ?init
         and n = "lit ''__substg1.0_0E060040''" and d = "[0, 0, 0, 0, 0, 0, 0, 0]"
         and ?es2.0 = "[?a2, ?b2, ?c2, ?d2, ?s2]",
       OF example_traversal_completes]
      falsy
    by (simp add: lit_def)
  have sender: "From (email_data (snd (process_msg example_env
          (compound_file ([?a, ?b, ?c, ?d, ?s1] @ ?a2 # [?b2, ?c2, ?d2, ?s2])) ?init)))
        = PStr (decode_text [98, 0, 0, 0])"
    using sent_on_first_wins_others_last_wins
      [where os = example_env and ?es1.0 = "[?a, ?b, ?c, ?d, ?s1]" and self = ?init
         and n = "lit ''__substg1.0_0C1A001F''" and d = "[98, 0, 0, 0]"
         and ?es2.0 = "[?b2, ?c2, ?d2, ?s2]",
       OF example_traversal_completes]
    by (simp add: lit_def)
  have subject: "Subject (email_data (snd (process_msg example_env
          (compound_file ([?a, ?b, ?c, ?d, ?s1, ?a2] @ ?b2 # [?c2, ?d2, ?s2])) ?init)))
        = PStr (decode_text [99, 0])"
    using sent_on_first_wins_others_last_wins
      [where os = example_env and ?es1.0 = "[?a, ?b, ?c, ?d, ?s1, ?a2]" and self = ?init
         and n = "lit ''__substg1.0_0037001F''" and d = "[99, 0]"
         and ?es2.0 = "[?c2, ?d2, ?s2]",
       OF example_traversal_completes]
    by (simp add: lit_def)
  have body: "Body (email_data (snd (process_msg example_env
          (compound_file ([?a, ?b, ?c, ?d, ?s1, ?a2, ?b2] @ ?c2 # [?d2, ?s2])) ?init)))
        = PStr (decode_text [100, 0])"
    using sent_on_first_wins_others_last_wins
      [where os = example_env and ?es1.0 = "[?a, ?b, ?c, ?d, ?s1, ?a2, ?b2]" and self = ?init
         and n = "lit ''__substg1.0_1000001F''" and d = "[100, 0]"
         and ?es2.0 = "[?d2, ?s2]",
       OF example_traversal_completes]
    by (simp add: lit_def)
  have cc: "CC (email_data (snd (process_msg example_env
          (compound_file ([?a, ?b, ?c, ?d, ?s1, ?a2, ?b2, ?c2] @ ?d2 # [?s2])) ?init)))
        = PStr (decode_text [101, 0])"
    using sent_on_first_wins_others_last_wins
      [where os = example_env and ?es1.0 = "[?a, ?b, ?c, ?d, ?s1, ?a2, ?b2, ?c2]" and self = ?init
         and n = "lit ''__substg1.0_0E03001F''" and d = "[101, 0]"
         and ?es2.0 = "[?s2]",
       OF example_traversal_completes]
    by (simp add: lit_def)
  show ?thesis
    using sent sender subject body cc
    by (simp add: example_root_def parse_filetime_zero8 dec)
qed

section \<open>Attachments\<close>

lemma attachment_step_filename_keep:
  "\<not> sets_filename e \<Longrightarrow> filename (snd (attachment_step os att e)) = filename att"
proof (cases e)
  case (Dir n es)
  then show ?thesis by (simp add: attachment_step_def)
next
  case (Stream n r)
  assume "\<not> sets_filename e"
  with Stream show ?thesis
    by (cases r) (auto simp: attachment_step_def attachment_try_def split: option.splits)
qed

lemma scan_filename_keep:
  "\<forall>e \<in> set es. \<not> sets_filename e \<Longrightarrow>
   filename (snd (for_each (attachment_step os) att es)) = filename att"
  by (rule for_each_invariant [where P = "\<lambda>a. filename a = filename att"])
     (simp_all add: attachment_step_filename_keep)

lemma payload_id_not_filename_id:
  "lit ''__substg1.0_370E001F'' \<noteq> lit ''__substg1.0_37010102''"
  "lit ''__substg1.0_3707001F'' \<noteq> lit ''__substg1.0_37010102''"
  by (simp_all add: lit_def)

text \<open>
  Claim C2 says that the first of the two file-name identifiers met among the children
  keeps the file name.  The loop assigns \<open>attachment["filename"]\<close> at every such
  stream: with \<open>a\<close> under \<open>370E001F\<close> followed by \<open>b\<close> under \<open>3707001F\<close> the file
  name is \<open>b\<close>, and the attachment is saved as \<open>b.bin\<close>.
\<close>

theorem attachment_filename_second_overwrites:
  "filename (snd (scan_attachment example_env
      [Stream (lit ''__substg1.0_370E001F'') (ReadOk [97, 0]),
       Stream (lit ''__substg1.0_3707001F'') (ReadOk [98, 0])])) = Some [98] \<and>
   filename (snd (scan_attachment example_env
      [Stream (lit ''__substg1.0_370E001F'') (ReadOk [97, 0])])) = Some [97] \<and>
   extract_attachment example_env
      (Dir (lit ''__attach_version1.0_#00000000'')
         [Stream (lit ''__substg1.0_370E001F'') (ReadOk [97, 0]),
          Stream (lit ''__substg1.0_3707001F'') (ReadOk [98, 0]),
          Stream (lit ''__substg1.0_37010102'') (ReadOk [1])])
      (init (lit ''a.msg'') (lit ''out''))
     = (None, (init (lit ''a.msg'') (lit ''out''))
                \<lparr>attachments := [lit ''b.bin''],
                  written := [(lit ''out/b.bin'', [1])]\<rparr>)"
  by (simp add: scan_attachment_def attachment_step_def attachment_try_def empty_attachment_def
      decode_text_def rstrip_nul_def code_unit_def is_surrogate_def
      extract_attachment_def startswith_def has_data_def save_attachment_def base_name_def
      extension_def sanitize_def replace_char_def forbidden_def mime_to_ext_def
      py_print_def encodable_def example_env_def init_def Let_def lit_def)

text \<open>
  Claim C2, amended.  The file name of an attachment group is the decoded text of the
  last child stream read under either of the two file-name identifiers: once the loop
  over the children has reached such a stream, a later occurrence overwrites an
  earlier one.
\<close>

theorem attachment_filename_last_wins:
  "fst (scan_attachment os es1) = None \<Longrightarrow>
   n = lit ''__substg1.0_370E001F'' \<or> n = lit ''__substg1.0_3707001F'' \<Longrightarrow>
   \<forall>e \<in> set es2. \<not> sets_filename e \<Longrightarrow>
   filename (snd (scan_attachment os (es1 @ Stream n (ReadOk d) # es2))) = Some (decode_text d)"
proof -
  assume c: "fst (scan_attachment os es1) = None"
    and n: "n = lit ''__substg1.0_370E001F'' \<or> n = lit ''__substg1.0_3707001F''"
    and q: "\<forall>e \<in> set es2. \<not> sets_filename e"
  obtain a where a: "for_each (attachment_step os) empty_attachment es1 = (None, a)"
    using c by (cases "scan_attachment os es1") (auto simp: scan_attachment_def)
  have s: "attachment_step os a (Stream n (ReadOk d)) = (None, a\<lparr>filename := Some (decode_text d)\<rparr>)"
    using n payload_id_not_filename_id
    by (auto simp: attachment_step_def attachment_try_def)
  have "scan_attachment os (es1 @ Stream n (ReadOk d) # es2)
          = for_each (attachment_step os) (a\<lparr>filename := Some (decode_text d)\<rparr>) es2"
    by (simp add: scan_attachment_def for_each_append a s)
  then show ?thesis using scan_filename_keep [OF q] by simp
qed

theorem attachment_filename_last_wins_witness:
  "filename (snd (scan_attachment example_env
      ([Stream (lit ''__substg1.0_3707001F'') (ReadOk [97, 0])]
        @ Stream (lit ''__substg1.0_370E001F'') (ReadOk [98, 0])
        # [Stream (lit ''__substg1.0_3704001F'') (ReadOk [99, 0])]))) = Some [98]"
proof -
  have c: "fst (scan_attachment example_env
                  [Stream (lit ''__substg1.0_3707001F'') (ReadOk [97, 0])]) = None"
    by (simp add: scan_attachment_def attachment_step_def attachment_try_def)
  have n: "lit ''__substg1.0_370E001F'' = lit ''__substg1.0_370E001F''
            \<or> lit ''__substg1.0_370E001F'' = lit ''__substg1.0_3707001F''" by simp
  have q: "\<forall>e \<in> set [Stream (lit ''__substg1.0_3704001F'') (ReadOk [99, 0])]. \<not> sets_filename e"
    by (simp add: lit_def)
  have d: "decode_text [98, 0] = [98]"
    by (simp add: decode_text_def rstrip_nul_def code_unit_def is_surrogate_def)
  show ?thesis
    using attachment_filename_last_wins [OF c n q, of "[98, 0]"]
    by (simp add: d)
qed

lemma attachment_step_no_data:
  assumes "\<not> has_data att"
    and "\<And>d. c = Stream (lit ''__substg1.0_37010102'') (ReadOk d) \<Longrightarrow> d = []"
  shows "\<not> has_data (snd (attachment_step os att c))"
proof (cases c)
  case (Dir n es)
  then show ?thesis using assms(1) by (simp add: attachment_step_def)
next
  case (Stream n r)
  show ?thesis
  proof (cases r)
    case (ReadOk d)
    with Stream assms show ?thesis
      by (auto simp: attachment_step_def attachment_try_def has_data_def)
  next
    case ReadNone
    with Stream assms(1) show ?thesis
      by (simp add: attachment_step_def attachment_try_def split: option.splits)
  next
    case ReadError
    with Stream assms(1) show ?thesis
      by (simp add: attachment_step_def attachment_try_def)
  qed
qed

lemma scan_no_data:
  assumes "\<And>d. Stream (lit ''__substg1.0_37010102'') (ReadOk d) \<in> set cs \<Longrightarrow> d = []"
  shows "\<not> has_data (snd (scan_attachment os cs))"
  unfolding scan_attachment_def
proof (rule for_each_invariant [where P = "\<lambda>a. \<not> has_data a"])
  fix s x
  assume "x \<in> set cs" "\<not> has_data s"
  then show "\<not> has_data (snd (attachment_step os s x))"
    using assms by (intro attachment_step_no_data) auto
next
  show "\<not> has_data empty_attachment" by (simp add: has_data_def empty_attachment_def)
qed

lemma scan_no_exception:
  assumes "\<And>c. stdout_encodes os c"
  shows "fst (scan_attachment os cs) = None"
  unfolding scan_attachment_def
proof (rule for_each_no_exception)
  fix s x
  show "fst (attachment_step os s x) = None"
    by (simp add: attachment_step_def attachment_try_def py_print_all [OF assms]
        split: sum.splits option.splits)
qed

text \<open>
  Claim C7.  An attachment group none of whose children is a payload stream read with
  at least one byte leaves the processor as it was: no file is written and no name is
  appended to the attachment list.  The missing payload raises nothing: with a
  standard output that encodes every character the call returns and the processor is
  unchanged.
\<close>

theorem attachment_without_payload_dropped:
  "(\<forall>d. Stream (lit ''__substg1.0_37010102'') (ReadOk d) \<in> set cs \<longrightarrow> d = []) \<Longrightarrow>
   snd (extract_attachment os (Dir n cs) self) = self \<and>
   ((\<forall>c. stdout_encodes os c) \<longrightarrow> extract_attachment os (Dir n cs) self = (None, self))"
proof -
  assume a: "\<forall>d. Stream (lit ''__substg1.0_37010102'') (ReadOk d) \<in> set cs \<longrightarrow> d = []"
  have nd: "\<not> has_data (snd (scan_attachment os cs))"
    using a by (intro scan_no_data) auto
  obtain r att where sc: "scan_attachment os cs = (r, att)" by (cases "scan_attachment os cs")
  with nd have "\<not> has_data att" by simp
  then have 1: "snd (extract_attachment os (Dir n cs) self) = self"
    by (simp add: extract_attachment_def sc split: option.splits)
  have 2: "extract_attachment os (Dir n cs) self = (None, self)" if "\<forall>c. stdout_encodes os c"
  proof -
    have "fst (scan_attachment os cs) = None" using that by (intro scan_no_exception) simp
    with sc have "r = None" by simp
    with \<open>\<not> has_data att\<close> show ?thesis by (simp add: extract_attachment_def sc)
  qed
  from 1 2 show ?thesis by blast
qed

text \<open>A group with a file name, a MIME type and an empty payload stream.\<close>

theorem attachment_without_payload_dropped_witness:
  "extract_attachment example_env
     (Dir (lit ''__attach_version1.0_#00000000'')
        [Stream (lit ''__substg1.0_3707001F'') (ReadOk [97, 0]),
         Stream (lit ''__substg1.0_3704001F'') (ReadOk [98, 0]),
         Stream (lit ''__substg1.0_37010102'') (ReadOk [])])
     (init (lit ''a.msg'') (lit ''out'')) = (None, init (lit ''a.msg'') (lit ''out''))"
proof -
  have h: "\<forall>d. Stream (lit ''__substg1.0_37010102'') (ReadOk d)
          \<in> set [Stream (lit ''__substg1.0_3707001F'') (ReadOk [97, 0]),
                 Stream (lit ''__substg1.0_3704001F'') (ReadOk [98, 0]),
                 Stream (lit ''__substg1.0_37010102'') (ReadOk [])] \<longrightarrow> d = []"
    by (simp add: lit_def)
  have e: "\<forall>c. stdout_encodes example_env c" by (simp add: example_env_def)
  show ?thesis
    using attachment_without_payload_dropped [OF h] e by blast
qed

section \<open>The attachment materializer\<close>

lemma foldl_replace_char:
  "foldl (\<lambda>b char. replace_char char b) s cs = map (\<lambda>c. if c \<in> set cs then 46 else c) s"
proof (induction cs arbitrary: s)
  case Nil
  then show ?case by simp
next
  case (Cons a cs)
  show ?case by (simp add: Cons.IH) (simp add: replace_char_def)
qed

lemma sanitize_map: "sanitize s = map (\<lambda>c. if c \<in> set forbidden then 46 else c) s"
  by (simp add: sanitize_def foldl_replace_char)

lemma sanitize_id: "\<forall>c \<in> set s. c \<notin> set forbidden \<Longrightarrow> sanitize s = s"
  by (simp add: sanitize_map map_idI)

lemma save_attachment_writes:
  assumes "open_wb os (path_join os (output_dir self) fname)" and "data att = Some d"
    and "sanitize (base_name att n) @ extension att (sanitize (base_name att n)) = fname"
  shows "written (snd (save_attachment os att n self))
           = written self @ [(path_join os (output_dir self) fname, d)]"
    and "attachments (snd (save_attachment os att n self)) = attachments self"
    and "encodable os (lit ''Saved attachment: '' @ path_join os (output_dir self) fname) \<Longrightarrow>
         fst (save_attachment os att n self) = Inr fname"
    and "\<not> encodable os (lit ''Saved attachment: '' @ path_join os (output_dir self) fname) \<Longrightarrow>
         fst (save_attachment os att n self) = Inl UnicodeEncodeError"
  using assms by (simp_all add: save_attachment_def Let_def py_print_def)

text \<open>
  Claim C8.  Sanitizing replaces every occurrence of each of the nine characters
  less-than, greater-than, colon, double quote (\<open>0x22\<close>), slash, backslash (\<open>0x5C\<close>),
  vertical bar, question mark and star by a period, and changes nothing else.  When the
  sanitized base name contains a period and the file can be opened, the file is written
  under the sanitized base name with nothing appended, and that name is returned once
  its path has been printed.  With the declared name \<open>bad:name.pdf\<close> the file is
  \<open>bad.name.pdf\<close>.
\<close>

theorem save_attachment_sanitizes:
  "sanitize b =
     map (\<lambda>c. if c \<in> of_char ` {CHR ''<'', CHR ''>'', CHR '':'', CHR 0x22, CHR ''/'', CHR 0x5C,
                                 CHR ''|'', CHR ''?'', CHR ''*''}
              then of_char CHR ''.'' else c) b \<and>
   (46 \<in> set (sanitize (base_name att n)) \<longrightarrow>
    open_wb os (path_join os (output_dir self) (sanitize (base_name att n))) \<longrightarrow>
    data att = Some d \<longrightarrow>
      written (snd (save_attachment os att n self))
        = written self @ [(path_join os (output_dir self) (sanitize (base_name att n)), d)] \<and>
      (encodable os (lit ''Saved attachment: ''
                       @ path_join os (output_dir self) (sanitize (base_name att n))) \<longrightarrow>
         fst (save_attachment os att n self) = Inr (sanitize (base_name att n)))) \<and>
   (filename att = Some (lit ''bad:name.pdf'') \<longrightarrow>
    open_wb os (path_join os (output_dir self) (lit ''bad.name.pdf'')) \<longrightarrow>
    data att = Some d \<longrightarrow>
      written (snd (save_attachment os att n self))
        = written self @ [(path_join os (output_dir self) (lit ''bad.name.pdf''), d)] \<and>
      (encodable os (lit ''Saved attachment: ''
                       @ path_join os (output_dir self) (lit ''bad.name.pdf'')) \<longrightarrow>
         fst (save_attachment os att n self) = Inr (lit ''bad.name.pdf'')))"
proof (intro conjI impI)
  show "sanitize b =
     map (\<lambda>c. if c \<in> of_char ` {CHR ''<'', CHR ''>'', CHR '':'', CHR 0x22, CHR ''/'', CHR 0x5C,
                                 CHR ''|'', CHR ''?'', CHR ''*''}
              then of_char CHR ''.'' else c) b"
    by (simp add: sanitize_map forbidden_def)
next
  assume p: "46 \<in> set (sanitize (base_name att n))"
    and o: "open_wb os (path_join os (output_dir self) (sanitize (base_name att n)))"
    and d: "data att = Some d"
  have f: "sanitize (base_name att n) @ extension att (sanitize (base_name att n))
             = sanitize (base_name att n)"
    using p by (simp add: extension_def)
  show "written (snd (save_attachment os att n self))
        = written self @ [(path_join os (output_dir self) (sanitize (base_name att n)), d)]"
    by (rule save_attachment_writes(1) [OF o d f])
  show "fst (save_attachment os att n self) = Inr (sanitize (base_name att n))"
    if "encodable os (lit ''Saved attachment: ''
                       @ path_join os (output_dir self) (sanitize (base_name att n)))"
    using that by (rule save_attachment_writes(3) [OF o d f])
next
  assume n: "filename att = Some (lit ''bad:name.pdf'')"
    and o: "open_wb os (path_join os (output_dir self) (lit ''bad.name.pdf''))"
    and d: "data att = Some d"
  have s: "sanitize (base_name att n) = lit ''bad.name.pdf''"
    using n by (simp add: base_name_def sanitize_map forbidden_def lit_def)
  have "46 \<in> set (lit ''bad.name.pdf'')" by (simp add: lit_def)
  then have f: "sanitize (base_name att n) @ extension att (sanitize (base_name att n))
             = lit ''bad.name.pdf''"
    by (simp add: s extension_def)
  show "written (snd (save_attachment os att n self))
        = written self @ [(path_join os (output_dir self) (lit ''bad.name.pdf''), d)]"
    by (rule save_attachment_writes(1) [OF o d f])
  show "fst (save_attachment os att n self) = Inr (lit ''bad.name.pdf'')"
    if "encodable os (lit ''Saved attachment: ''
                       @ path_join os (output_dir self) (lit ''bad.name.pdf''))"
    using that by (rule save_attachment_writes(3) [OF o d f])
qed

text \<open>All nine characters in one name, and the declared name \<open>bad:name.pdf\<close>.\<close>

theorem save_attachment_sanitizes_witness:
  "sanitize (lit ''a<b>c:d'' @ [34] @ lit ''e/f'' @ [92] @ lit ''g|h?i*j.k-l'')
     = lit ''a.b.c.d.e.f.g.h.i.j.k-l'' \<and>
   save_attachment example_env
      \<lparr> data = Some [1, 2], filename = Some (lit ''bad:name.pdf''),
        mime_type = Some (lit ''application/pdf'') \<rparr>
      (lit ''__attach_version1.0_#00000000'') (init (lit ''a.msg'') (lit ''out''))
     = (Inr (lit ''bad.name.pdf''),
        (init (lit ''a.msg'') (lit ''out''))\<lparr>written := [(lit ''out/bad.name.pdf'', [1, 2])]\<rparr>)"
proof -
  let ?att = "\<lparr> data = Some [1, 2], filename = Some (lit ''bad:name.pdf''),
                 mime_type = Some (lit ''application/pdf'') \<rparr>"
  let ?init = "init (lit ''a.msg'') (lit ''out'')"
  have f: "filename ?att = Some (lit ''bad:name.pdf'')" by simp
  have o: "open_wb example_env (path_join example_env (output_dir ?init) (lit ''bad.name.pdf''))"
    by (simp add: example_env_def)
  have d: "data ?att = Some [1, 2]" by simp
  have p: "encodable example_env (lit ''Saved attachment: ''
             @ path_join example_env (output_dir ?init) (lit ''bad.name.pdf''))"
    by (simp add: encodable_def example_env_def list_all_iff)
  note t = save_attachment_sanitizes
    [where b = "lit ''a<b>c:d'' @ [34] @ lit ''e/f'' @ [92] @ lit ''g|h?i*j.k-l''"
       and att = ?att and os = example_env and self = ?init and d = "[1, 2]"
       and n = "lit ''__attach_version1.0_#00000000''"]
  have 1: "sanitize (lit ''a<b>c:d'' @ [34] @ lit ''e/f'' @ [92] @ lit ''g|h?i*j.k-l'')
             = lit ''a.b.c.d.e.f.g.h.i.j.k-l''"
    using t by (simp add: lit_def)
  have 2: "written (snd (save_attachment example_env ?att
                (lit ''__attach_version1.0_#00000000'') ?init))
             = written ?init @ [(path_join example_env (output_dir ?init) (lit ''bad.name.pdf''), [1, 2])]"
    and 3: "fst (save_attachment example_env ?att
                (lit ''__attach_version1.0_#00000000'') ?init) = Inr (lit ''bad.name.pdf'')"
    using t f o d p by blast+
  have 4: "snd (save_attachment example_env ?att (lit ''__attach_version1.0_#00000000'') ?init)
             = ?init\<lparr>written := written (snd (save_attachment example_env ?att
                (lit ''__attach_version1.0_#00000000'') ?init))\<rparr>"
    by (simp add: save_attachment_def Let_def py_print_def split: option.splits)
  have "save_attachment example_env ?att (lit ''__attach_version1.0_#00000000'') ?init
          = (Inr (lit ''bad.name.pdf''),
             ?init\<lparr>written := [(lit ''out/bad.name.pdf'', [1, 2])]\<rparr>)"
    using 2 3 4
    by (cases "save_attachment example_env ?att (lit ''__attach_version1.0_#00000000'') ?init")
       (simp add: init_def example_env_def lit_def)
  with 1 show ?thesis by blast
qed

text \<open>
  Claim C9 gives the synthesized name as \<open>attachment_\<close>, the last eight characters of
  the group name and \<open>.png\<close>.  The group name \<open>__attach_version1.0_#0\<close> ends in
  \<open>on1.0_#0\<close>, which contains a period: no extension is appended.
\<close>

theorem synthesized_name_counterexample:
  "save_attachment example_env
      \<lparr> data = Some [1], filename = None, mime_type = Some (lit ''image/png'') \<rparr>
      (lit ''__attach_version1.0_#0'') (init (lit ''a.msg'') (lit ''out''))
     = (Inr (lit ''attachment_on1.0_#0''),
        (init (lit ''a.msg'') (lit ''out''))\<lparr>written := [(lit ''out/attachment_on1.0_#0'', [1])]\<rparr>) \<and>
   lit ''attachment_on1.0_#0''
     \<noteq> lit ''attachment_'' @ last8 (lit ''__attach_version1.0_#0'') @ lit ''.png''"
  by (simp add: save_attachment_def base_name_def extension_def sanitize_map forbidden_def
      last8_def py_print_def encodable_def example_env_def init_def lit_def Let_def)

text \<open>
  Claim C9, amended.  When the attachment has no declared file name (absent or empty),
  the last eight characters of the group name contain neither a period nor one of the
  nine sanitized characters, and the file can be opened: with MIME type \<open>image/png\<close>
  the file is written as \<open>attachment_\<close>, those characters and \<open>.png\<close>; with a MIME
  type that is absent or not in the table it ends in \<open>.bin\<close> instead.  That name is
  returned once its path has been printed.
\<close>

theorem synthesized_name:
  assumes "\<not> nonempty (filename att)"
    and "\<forall>c \<in> set (last8 n). c \<noteq> 46 \<and> c \<notin> set forbidden"
    and "data att = Some d"
  shows "(mime_type att = Some (lit ''image/png'') \<longrightarrow>
          open_wb os (path_join os (output_dir self)
                        (lit ''attachment_'' @ last8 n @ lit ''.png'')) \<longrightarrow>
            written (snd (save_attachment os att n self))
              = written self
                  @ [(path_join os (output_dir self)
                        (lit ''attachment_'' @ last8 n @ lit ''.png''), d)] \<and>
            (encodable os (lit ''Saved attachment: ''
                             @ path_join os (output_dir self)
                                 (lit ''attachment_'' @ last8 n @ lit ''.png'')) \<longrightarrow>
               fst (save_attachment os att n self)
                 = Inr (lit ''attachment_'' @ last8 n @ lit ''.png''))) \<and>
         ((mime_type att = None
             \<or> (\<exists>m. mime_type att = Some m \<and> map_of mime_to_ext m = None)) \<longrightarrow>
          open_wb os (path_join os (output_dir self)
                        (lit ''attachment_'' @ last8 n @ lit ''.bin'')) \<longrightarrow>
            written (snd (save_attachment os att n self))
              = written self
                  @ [(path_join os (output_dir self)
                        (lit ''attachment_'' @ last8 n @ lit ''.bin''), d)] \<and>
            (encodable os (lit ''Saved attachment: ''
                             @ path_join os (output_dir self)
                                 (lit ''attachment_'' @ last8 n @ lit ''.bin'')) \<longrightarrow>
               fst (save_attachment os att n self)
                 = Inr (lit ''attachment_'' @ last8 n @ lit ''.bin'')))"
proof -
  have b: "base_name att n = lit ''attachment_'' @ last8 n"
    using assms(1) by (auto simp: base_name_def nonempty_def split: option.splits)
  have clean: "\<forall>c \<in> set (lit ''attachment_'' @ last8 n). c \<noteq> 46 \<and> c \<notin> set forbidden"
    using assms(2) by (auto simp: lit_def forbidden_def)
  then have s: "sanitize (base_name att n) = lit ''attachment_'' @ last8 n"
    by (simp add: b sanitize_id)
  have nodot: "46 \<notin> set (lit ''attachment_'' @ last8 n)"
    using clean by blast
  have png: "map_of mime_to_ext (lit ''image/png'') = Some (lit ''.png'')"
    by (simp add: mime_to_ext_def lit_def)
  have ext_png: "sanitize (base_name att n) @ extension att (sanitize (base_name att n))
                   = lit ''attachment_'' @ last8 n @ lit ''.png''"
    if "mime_type att = Some (lit ''image/png'')"
    using that nodot png by (simp add: s extension_def)
  have ext_bin: "sanitize (base_name att n) @ extension att (sanitize (base_name att n))
                   = lit ''attachment_'' @ last8 n @ lit ''.bin''"
    if "mime_type att = None \<or> (\<exists>m. mime_type att = Some m \<and> map_of mime_to_ext m = None)"
    using that nodot by (auto simp: s extension_def)
  show ?thesis
    using save_attachment_writes(1,3) [OF _ assms(3) ext_png]
      save_attachment_writes(1,3) [OF _ assms(3) ext_bin]
    by blast
qed

theorem synthesized_name_witness:
  "save_attachment example_env
      \<lparr> data = Some [1], filename = None, mime_type = Some (lit ''image/png'') \<rparr>
      (lit ''__attach_version1.0_#0000000A'') (init (lit ''a.msg'') (lit ''out''))
     = (Inr (lit ''attachment_0000000A.png''),
        (init (lit ''a.msg'') (lit ''out''))
          \<lparr>written := [(lit ''out/attachment_0000000A.png'', [1])]\<rparr>) \<and>
   save_attachment example_env
      \<lparr> data = Some [1], filename = Some [], mime_type = None \<rparr>
      (lit ''__attach_version1.0_#0000000A'') (init (lit ''a.msg'') (lit ''out''))
     = (Inr (lit ''attachment_0000000A.bin''),
        (init (lit ''a.msg'') (lit ''out''))
          \<lparr>written := [(lit ''out/attachment_0000000A.bin'', [1])]\<rparr>)"
proof -
  let ?n = "lit ''__attach_version1.0_#0000000A''"
  let ?init = "init (lit ''a.msg'') (lit ''out'')"
  let ?a1 = "\<lparr> data = Some [1], filename = None, mime_type = Some (lit ''image/png'') \<rparr>"
  let ?a2 = "\<lparr> data = Some [1], filename = Some [], mime_type = None \<rparr>"
  have l: "last8 ?n = lit ''0000000A''"
    by (simp add: last8_def lit_def)
  have c: "\<forall>c \<in> set (last8 ?n). c \<noteq> 46 \<and> c \<notin> set forbidden"
    by (simp add: l) (simp add: lit_def forbidden_def)
  have o: "\<And>p. open_wb example_env p" by (simp add: example_env_def)
  have e: "\<And>t. encodable example_env t" by (simp add: encodable_def example_env_def list_all_iff)
  have keep: "snd (save_attachment example_env a ?n ?init)
                = ?init\<lparr>written := written (snd (save_attachment example_env a ?n ?init))\<rparr>" for a
    by (simp add: save_attachment_def Let_def py_print_def split: option.splits)
  have 1: "written (snd (save_attachment example_env ?a1 ?n ?init))
             = written ?init @ [(path_join example_env (output_dir ?init)
                                   (lit ''attachment_'' @ last8 ?n @ lit ''.png''), [1])]"
      "fst (save_attachment example_env ?a1 ?n ?init)
         = Inr (lit ''attachment_'' @ last8 ?n @ lit ''.png'')"
    using synthesized_name [of ?a1, OF _ c, of "[1]" example_env ?init] o e
    by (simp_all add: nonempty_def)
  have 2: "written (snd (save_attachment example_env ?a2 ?n ?init))
             = written ?init @ [(path_join example_env (output_dir ?init)
                                   (lit ''attachment_'' @ last8 ?n @ lit ''.bin''), [1])]"
      "fst (save_attachment example_env ?a2 ?n ?init)
         = Inr (lit ''attachment_'' @ last8 ?n @ lit ''.bin'')"
    using synthesized_name [of ?a2, OF _ c, of "[1]" example_env ?init] o e
    by (simp_all add: nonempty_def)
  have r1: "save_attachment example_env ?a1 ?n ?init
     = (Inr (lit ''attachment_0000000A.png''),
        ?init\<lparr>written := [(lit ''out/attachment_0000000A.png'', [1])]\<rparr>)"
    using 1 keep [of ?a1]
    by (cases "save_attachment example_env ?a1 ?n ?init")
       (simp add: l, simp add: init_def example_env_def lit_def)
  have r2: "save_attachment example_env ?a2 ?n ?init
     = (Inr (lit ''attachment_0000000A.bin''),
        ?init\<lparr>written := [(lit ''out/attachment_0000000A.bin'', [1])]\<rparr>)"
    using 2 keep [of ?a2]
    by (cases "save_attachment example_env ?a2 ?n ?init")
       (simp add: l, simp add: init_def example_env_def lit_def)
  show ?thesis using r1 r2 by blast
qed

section \<open>\<open>process\<close>\<close>

text \<open>
  When opening the compound file fails and the message of the handler can be printed,
  \<open>process\<close> returns the record as \<open>__init__\<close> made it and no attachment.
\<close>

lemma process_msg_open_failure_returns:
  assumes "endswith (lower path) (lit ''.msg'')" and "CompoundFileReader file = Inl e"
    and "encodable os (lit ''Failed to process .msg file '' @ path @ lit '': '' @ str_exc os e)"
  shows "process os file (init path dir) =
        (Inr (\<lparr> From = PNone, To = [], Sent_On = PNone, CC = PNone, Subject = PNone,
                Body = PNone \<rparr>, []),
         init path dir)"
  using assms
  by (simp add: process_def process_msg_def process_msg_try_def py_print_def init_def)

text \<open>
  Claim C6 says that \<open>process\<close> does not propagate a failure to open the compound
  file.  The handler of \<open>_process_msg\<close> prints the path.  Take a missing file and a
  standard output that encodes ASCII alone.  With the path \<open>e.msg\<close> the call returns
  the empty record and no attachment.  With the e replaced by e-acute, code point 233,
  \<open>print\<close> raises \<open>UnicodeEncodeError\<close> in the handler and the exception leaves
  \<open>process\<close>.
\<close>

theorem process_msg_open_failure_print_raises:
  "CompoundFileReader None = Inl OSError \<and>
   process ascii_env None (init ([233] @ lit ''.msg'') (lit ''out''))
     = (Inl UnicodeEncodeError, init ([233] @ lit ''.msg'') (lit ''out'')) \<and>
   process ascii_env None (init (lit ''e.msg'') (lit ''out''))
     = (Inr (\<lparr> From = PNone, To = [], Sent_On = PNone, CC = PNone, Subject = PNone,
               Body = PNone \<rparr>, []),
        init (lit ''e.msg'') (lit ''out''))"
  by (simp add: process_def process_msg_def process_msg_try_def CompoundFileReader_def
      py_print_def encodable_def ascii_env_def endswith_def lower_def lit_def init_def)

text \<open>
  Claim C10.  On a path whose lower-cased form ends neither in \<open>.msg\<close> nor in
  \<open>.eml\<close>, \<open>process\<close> extracts nothing: it returns the record as \<open>__init__\<close> made
  it and the empty attachment list, and the processor is unchanged.
\<close>

theorem process_other_extension:
  "\<not> endswith (lower path) (lit ''.msg'') \<Longrightarrow> \<not> endswith (lower path) (lit ''.eml'') \<Longrightarrow>
   process os file (init path dir) =
     (Inr (\<lparr> From = PNone, To = [], Sent_On = PNone, CC = PNone, Subject = PNone,
             Body = PNone \<rparr>, []),
      init path dir)"
  by (simp add: process_def init_def)

theorem process_other_extension_witness:
  "\<not> endswith (lower (lit ''notes.TXT'')) (lit ''.msg'') \<and>
   \<not> endswith (lower (lit ''notes.TXT'')) (lit ''.eml'') \<and>
   process example_env None (init (lit ''notes.TXT'') (lit ''out'')) =
     (Inr (\<lparr> From = PNone, To = [], Sent_On = PNone, CC = PNone, Subject = PNone,
             Body = PNone \<rparr>, []),
      init (lit ''notes.TXT'') (lit ''out''))"
proof -
  have a: "\<not> endswith (lower (lit ''notes.TXT'')) (lit ''.msg'')"
    by (simp add: endswith_def lower_def lit_def)
  have b: "\<not> endswith (lower (lit ''notes.TXT'')) (lit ''.eml'')"
    by (simp add: endswith_def lower_def lit_def)
  show ?thesis using a b process_other_extension [OF a b] by simp
qed

section \<open>The FILETIME decoder\<close>

subsection \<open>Bytes to integer\<close>

lemma from_bytes_little_replicate0 [simp]: "from_bytes_little (replicate n 0) = 0"
  by (induction n) simp_all

lemma from_bytes_little_append_zeros:
  "from_bytes_little (xs @ replicate n 0) = from_bytes_little xs"
  by (induction xs) simp_all

lemma from_bytes_little_bound: "from_bytes_little xs < 256 ^ length xs"
proof (induction xs)
  case Nil
  then show ?case by simp
next
  case (Cons b bs)
  have "unat b < 256" using unsigned_less [of b] by simp
  then have "unat b + 256 * from_bytes_little bs < 256 + 256 * from_bytes_little bs" by simp
  also have "\<dots> = 256 * Suc (from_bytes_little bs)" by simp
  also have "\<dots> \<le> 256 * 256 ^ length bs"
    using Cons.IH by (intro mult_le_mono2) simp
  finally show ?case by simp
qed

lemma from_bytes_little_append:
  "from_bytes_little (xs @ ys) = from_bytes_little xs + 256 ^ length xs * from_bytes_little ys"
  by (induction xs) (simp_all add: algebra_simps)

lemma from_bytes_little_pos:
  "\<exists>b \<in> set ys. b \<noteq> 0 \<Longrightarrow> 0 < from_bytes_little ys"
proof (induction ys)
  case Nil
  then show ?case by simp
next
  case (Cons y ys)
  show ?case
  proof (cases "y = 0")
    case True
    with Cons show ?thesis by simp
  next
    case False
    then have "0 < unat y" by (simp add: unat_gt_0)
    then show ?thesis by simp
  qed
qed

subsection \<open>The rounded quotient\<close>

lemma bit_length_bounds:
  "0 < n \<Longrightarrow> 2 ^ (bit_length n - 1) \<le> n \<and> n < 2 ^ bit_length n"
proof (induction n rule: bit_length.induct)
  case (1 n)
  show ?case
  proof (cases "n div 2 = 0")
    case True
    with "1.prems" have "n = 1" by presburger
    have "bit_length (Suc 0) = Suc 0"
      by (simp add: bit_length.simps [of "Suc 0"] bit_length.simps [of 0])
    with \<open>n = 1\<close> show ?thesis by simp
  next
    case False
    then have pos: "0 < n div 2" by simp
    from "1.IH" [OF _ pos] "1.prems"
    have ih: "2 ^ (bit_length (n div 2) - 1) \<le> n div 2" "n div 2 < 2 ^ bit_length (n div 2)"
      by simp_all
    have bl: "bit_length n = Suc (bit_length (n div 2))"
      using "1.prems" by (simp add: bit_length.simps [of n])
    have bpos: "0 < bit_length (n div 2)"
      using pos by (simp add: bit_length.simps [of "n div 2"])
    then obtain j where j: "bit_length (n div 2) = Suc j" by (cases "bit_length (n div 2)") auto
    have "2 * 2 ^ j \<le> 2 * (n div 2)" using ih(1) j by simp
    also have "\<dots> \<le> n" by simp
    finally have lo: "2 ^ (bit_length n - 1) \<le> n" by (simp add: bl j)
    have "n < 2 * (n div 2) + 2" by presburger
    also have "\<dots> \<le> 2 * 2 ^ bit_length (n div 2)" using ih(2) by simp
    finally have hi: "n < 2 ^ bit_length n" by (simp add: bl)
    from lo hi show ?thesis by simp
  qed
qed

lemma bit_length_pos: "0 < n \<Longrightarrow> 0 < bit_length n"
  by (simp add: bit_length.simps [of n])

lemma quotient_exponent_lower:
  assumes "0 < a" "0 < b" "0 \<le> quotient_exponent a b"
  shows "b * 2 ^ nat (quotient_exponent a b) \<le> a"
proof -
  let ?d = "int (bit_length a) - int (bit_length b)"
  show ?thesis
  proof (cases "if 0 \<le> ?d then b * 2 ^ nat ?d \<le> a else b \<le> a * 2 ^ nat (- ?d)")
    case True
    then have e: "quotient_exponent a b = ?d" by (simp add: quotient_exponent_def Let_def)
    with assms(3) True show ?thesis by simp
  next
    case False
    then have e: "quotient_exponent a b = ?d - 1" by (simp add: quotient_exponent_def Let_def)
    with assms(3) have d1: "1 \<le> ?d" by simp
    from bit_length_bounds [OF assms(1)] have la: "2 ^ (bit_length a - 1) \<le> a" by simp
    from bit_length_bounds [OF assms(2)] have lb: "b < 2 ^ bit_length b" by simp
    from d1 have n: "nat (?d - 1) + bit_length b = bit_length a - 1" by linarith
    have "b * 2 ^ nat (?d - 1) \<le> 2 ^ bit_length b * 2 ^ nat (?d - 1)"
      using lb by simp
    also have "\<dots> = 2 ^ (bit_length a - 1)"
      using n by (simp add: power_add [symmetric] add.commute)
    also have "\<dots> \<le> a" by (rule la)
    finally show ?thesis by (simp add: e)
  qed
qed

lemma quotient_exponent_upper:
  assumes "0 < a" "0 < b" "b * 2 ^ n \<le> a"
  shows "int n \<le> quotient_exponent a b"
proof -
  let ?d = "int (bit_length a) - int (bit_length b)"
  from bit_length_bounds [OF assms(1)] have la: "a < 2 ^ bit_length a" by simp
  from bit_length_bounds [OF assms(2)] have lb: "2 ^ (bit_length b - 1) \<le> b" by simp
  have "2 ^ (bit_length b - 1 + n) = 2 ^ (bit_length b - 1) * (2::nat) ^ n"
    by (simp add: power_add)
  also have "\<dots> \<le> b * 2 ^ n" using lb by simp
  also have "\<dots> \<le> a" by (rule assms(3))
  also have "\<dots> < 2 ^ bit_length a" by (rule la)
  finally have "bit_length b - 1 + n < bit_length a"
    by (rule power_less_imp_less_exp [rotated]) simp
  then have nd: "int n \<le> ?d" using bit_length_pos [OF assms(2)] by linarith
  show ?thesis
  proof (cases "if 0 \<le> ?d then b * 2 ^ nat ?d \<le> a else b \<le> a * 2 ^ nat (- ?d)")
    case True
    then have "quotient_exponent a b = ?d" by (simp add: quotient_exponent_def Let_def)
    with nd show ?thesis by simp
  next
    case False
    then have e: "quotient_exponent a b = ?d - 1" by (simp add: quotient_exponent_def Let_def)
    have "int n \<noteq> ?d"
    proof
      assume eq: "int n = ?d"
      then have "nat ?d = n" by simp
      with False eq assms(3) show False by simp
    qed
    with nd show ?thesis by (simp add: e)
  qed
qed

lemma div_half_even_le: "div_half_even n d \<le> n div d + 1"
  by (simp add: div_half_even_def Let_def)

lemma div_half_even_ge: "n div d \<le> div_half_even n d"
  by (simp add: div_half_even_def Let_def)

lemma div_half_even_exact: "0 < d \<Longrightarrow> div_half_even (q * d) d = q"
  by (simp add: div_half_even_def Let_def)

text \<open>The quotient is never rounded to more than twice its integer part plus two.\<close>

lemma true_divide_bound:
  assumes "0 < a" "0 < b"
  defines "s \<equiv> max (quotient_exponent a b - 52) (- 1074)"
  defines "m \<equiv> (if 0 \<le> s then div_half_even a (b * 2 ^ nat s)
                  else div_half_even (a * 2 ^ nat (- s)) b)"
  shows "float_round (m, s) \<le> 2 * (a div b) + 2"
proof (cases "0 \<le> s")
  case True
  then have e: "0 \<le> quotient_exponent a b" and se: "nat s \<le> nat (quotient_exponent a b)"
    by (simp_all add: s_def)
  have m: "m = div_half_even a (b * 2 ^ nat s)" using True by (simp add: m_def)
  have "b * 2 ^ nat (quotient_exponent a b) \<le> a"
    by (rule quotient_exponent_lower [OF assms(1,2) e])
  then have "(b * 2 ^ nat (quotient_exponent a b)) div b \<le> a div b"
    by (rule div_le_mono)
  then have "2 ^ nat (quotient_exponent a b) \<le> a div b" using assms(2) by simp
  moreover have "(2::nat) ^ nat s \<le> 2 ^ nat (quotient_exponent a b)"
    using se by (simp add: power_increasing)
  ultimately have p: "2 ^ nat s \<le> a div b" by linarith
  have "m * 2 ^ nat s \<le> (a div (b * 2 ^ nat s) + 1) * 2 ^ nat s"
    unfolding m by (intro mult_le_mono1 div_half_even_le)
  also have "\<dots> = (a div b div 2 ^ nat s) * 2 ^ nat s + 2 ^ nat s"
    by (simp add: div_mult2_eq algebra_simps)
  also have "\<dots> \<le> a div b + 2 ^ nat s" by simp
  finally have "m * 2 ^ nat s \<le> 2 * (a div b)" using p by linarith
  then show ?thesis using True by (simp add: float_round_def)
next
  case False
  define t where "t = nat (- s)"
  have m: "m = div_half_even (a * 2 ^ t) b" using False by (simp add: m_def t_def)
  have "a < (a div b + 1) * b"
    using assms(2) by (simp add: dividend_less_times_div mult.commute)
  then have "a * 2 ^ t < ((a div b + 1) * b) * 2 ^ t" by (rule mult_less_mono1) simp
  also have "\<dots> = (a div b + 1) * 2 ^ t * b" by (simp only: mult.assoc mult.commute [of b])
  finally have "a * 2 ^ t < (a div b + 1) * 2 ^ t * b" .
  then have "(a * 2 ^ t) div b < (a div b + 1) * 2 ^ t"
    using assms(2) by (simp add: div_less_iff_less_mult)
  then have "m \<le> (a div b + 1) * 2 ^ t"
    using div_half_even_le [of "a * 2 ^ t" b] unfolding m by linarith
  then have "m div 2 ^ t \<le> ((a div b + 1) * 2 ^ t) div 2 ^ t" by (rule div_le_mono)
  then have "m div 2 ^ t \<le> a div b + 1" by simp
  then have "div_half_even m (2 ^ t) \<le> a div b + 2"
    using div_half_even_le [of m "2 ^ t"] by linarith
  then show ?thesis using False by (simp add: float_round_def t_def)
qed

lemma true_divide_small:
  assumes "a < 2 ^ 1000" "0 < b"
  shows "\<exists>x. true_divide a b = Inr x \<and> float_round x \<le> 2 * (a div b) + 2"
proof (cases "a = 0")
  case True
  then show ?thesis using assms(2) by (simp add: true_divide_def float_round_def)
next
  case False
  then have apos: "0 < a" by simp
  define s where "s = max (quotient_exponent a b - 52) (- 1074)"
  define m where "m = (if 0 \<le> s then div_half_even a (b * 2 ^ nat s)
                       else div_half_even (a * 2 ^ nat (- s)) b)"
  have td: "true_divide a b =
              (if 0 \<le> s \<and> 2 ^ 1024 \<le> m * 2 ^ nat s then Inl OverflowError else Inr (m, s))"
    using assms(2) apos by (simp add: true_divide_def Let_def s_def m_def)
  have fr: "float_round (m, s) \<le> 2 * (a div b) + 2"
    unfolding m_def s_def by (rule true_divide_bound [OF apos assms(2)])
  have "a div b \<le> a" by simp
  then have small: "2 * (a div b) + 2 < 2 ^ 1024"
  proof -
    have "2 * (a div b) + 2 \<le> 2 * a + 2" by simp
    also have "\<dots> < 2 * 2 ^ 1000 + 2 * 2 ^ 1000" using assms(1) by simp
    also have "\<dots> = (2::nat) ^ 1002" by simp
    also have "\<dots> < 2 ^ 1024" by (intro power_strict_increasing) simp_all
    finally show ?thesis .
  qed
  have "\<not> (0 \<le> s \<and> 2 ^ 1024 \<le> m * 2 ^ nat s)"
  proof
    assume a: "0 \<le> s \<and> 2 ^ 1024 \<le> m * 2 ^ nat s"
    then have "m * 2 ^ nat s = float_round (m, s)" by (simp add: float_round_def)
    with a fr small show False by linarith
  qed
  with td fr show ?thesis by simp
qed

text \<open>
  A quotient with at most 53 significant bits is a double: the division returns it and
  \<open>timedelta\<close> keeps it.
\<close>

lemma true_divide_exact:
  assumes "0 < b" "0 < j" "j \<le> 2 ^ 53" "j * 2 ^ i < 2 ^ 1024"
  shows "\<exists>x. true_divide (j * 2 ^ i * b) b = Inr x \<and> float_round x = j * 2 ^ i"
proof -
  define k where "k = j * 2 ^ i"
  define e where "e = quotient_exponent (k * b) b"
  define s where "s = max (e - 52) (- 1074)"
  define m where "m = (if 0 \<le> s then div_half_even (k * b) (b * 2 ^ nat s)
                       else div_half_even (k * b * 2 ^ nat (- s)) b)"
  have kpos: "0 < k" using assms(2) by (simp add: k_def)
  have apos: "0 < k * b" using assms(1) kpos by simp
  have td: "true_divide (k * b) b =
              (if 0 \<le> s \<and> 2 ^ 1024 \<le> m * 2 ^ nat s then Inl OverflowError else Inr (m, s))"
    using assms(1) kpos by (simp add: true_divide_def Let_def s_def m_def e_def)
  have fr: "float_round (m, s) = k"
  proof (cases "0 \<le> s")
    case True
    then have e52: "52 \<le> e" and se: "s = e - 52" by (simp_all add: s_def)
    have "b * 2 ^ nat e \<le> k * b"
      unfolding e_def by (rule quotient_exponent_lower [OF apos assms(1)]) (use e52 e_def in simp)
    then have le: "2 ^ nat e \<le> k" using assms(1) by (simp add: mult.commute)
    have dv: "2 ^ nat s dvd k"
    proof (cases "nat s \<le> i")
      case True
      then have "(2::nat) ^ nat s dvd 2 ^ i" by (rule le_imp_power_dvd)
      then show ?thesis by (simp add: k_def)
    next
      case False
      then have ei: "53 + i \<le> nat e" using se e52 by linarith
      then have "(2::nat) ^ (53 + i) \<le> 2 ^ nat e" by (intro power_increasing) simp_all
      then have "(2::nat) ^ 53 * 2 ^ i \<le> 2 ^ nat e" by (simp only: power_add)
      also have "\<dots> \<le> j * 2 ^ i" using le by (simp only: k_def)
      finally have "(2::nat) ^ 53 * 2 ^ i \<le> j * 2 ^ i" .
      then have "(2::nat) ^ 53 \<le> j" by simp
      with assms(3) have j: "j = 2 ^ 53" by linarith
      then have k2: "k = 2 ^ (53 + i)" by (simp add: k_def power_add)
      with le have "(2::nat) ^ nat e \<le> 2 ^ (53 + i)" by simp
      then have "nat e \<le> 53 + i" by (rule power_le_imp_le_exp [rotated]) simp
      then have "nat s \<le> 53 + i" using se by linarith
      then show ?thesis unfolding k2 by (rule le_imp_power_dvd)
    qed
    then obtain q where q: "k = q * 2 ^ nat s" by (auto simp: dvd_def mult.commute)
    have "m = div_half_even (q * (b * 2 ^ nat s)) (b * 2 ^ nat s)"
      using True by (simp add: m_def q mult.assoc mult.left_commute mult.commute)
    also have "\<dots> = q" using assms(1) by (intro div_half_even_exact) simp
    finally show ?thesis using True by (simp add: float_round_def q)
  next
    case False
    have "m = div_half_even (k * 2 ^ nat (- s) * b) b"
      using False by (simp add: m_def mult.assoc mult.commute [of b])
    also have "\<dots> = k * 2 ^ nat (- s)" using assms(1) by (rule div_half_even_exact)
    finally have "m = k * 2 ^ nat (- s)" .
    moreover have "div_half_even (k * 2 ^ nat (- s)) (2 ^ nat (- s)) = k"
      by (rule div_half_even_exact) simp
    ultimately show ?thesis using False by (simp add: float_round_def)
  qed
  have "\<not> (0 \<le> s \<and> 2 ^ 1024 \<le> m * 2 ^ nat s)"
  proof
    assume a: "0 \<le> s \<and> 2 ^ 1024 \<le> m * 2 ^ nat s"
    then have "m * 2 ^ nat s = k" using fr by (simp add: float_round_def)
    with a have "(2::nat) ^ 1024 \<le> k" by simp
    then show False using assms(4) by (simp add: k_def)
  qed
  with td fr show ?thesis by (simp add: k_def)
qed

text \<open>From \<open>2 ^ 53\<close> on, rounding loses less than half of the quotient.\<close>

lemma true_divide_large:
  assumes "0 < b" "b * 2 ^ 53 \<le> a" "true_divide a b = Inr x"
  shows "a div b div 2 \<le> float_round x"
proof -
  have apos: "0 < a"
  proof (rule ccontr)
    assume "\<not> 0 < a"
    with assms(1,2) show False by simp
  qed
  define e where "e = quotient_exponent a b"
  define t where "t = nat (e - 52)"
  have e53: "53 \<le> e"
    using quotient_exponent_upper [OF apos assms(1,2)] by (simp add: e_def)
  then have s: "max (e - 52) (- 1074) = int t" and t1: "1 \<le> t" and te: "Suc t \<le> nat e"
    by (simp_all add: t_def)
  define m where "m = div_half_even a (b * 2 ^ t)"
  have "true_divide a b = (if 2 ^ 1024 \<le> m * 2 ^ t then Inl OverflowError else Inr (m, int t))"
    using assms(1) apos s by (simp add: true_divide_def Let_def e_def [symmetric] m_def)
  with assms(3) have x: "x = (m, int t)" by (simp split: if_splits)
  have fr: "float_round x = m * 2 ^ t" by (simp add: x float_round_def)
  have "b * 2 ^ nat e \<le> a"
    unfolding e_def by (rule quotient_exponent_lower [OF apos assms(1)]) (use e53 e_def in simp)
  then have "(b * 2 ^ nat e) div b \<le> a div b" by (rule div_le_mono)
  then have pe: "2 ^ nat e \<le> a div b" using assms(1) by simp
  have "(2::nat) ^ Suc t \<le> 2 ^ nat e" using te by (intro power_increasing) simp_all
  with pe have "2 * 2 ^ t \<le> a div b" by simp
  then have half: "2 ^ t \<le> a div b div 2" by simp
  have "a div b < (a div b div 2 ^ t) * 2 ^ t + 2 ^ t"
    using dividend_less_times_div [of "2 ^ t" "a div b"] by (simp add: mult.commute)
  also have "\<dots> = (a div (b * 2 ^ t)) * 2 ^ t + 2 ^ t" by (simp add: div_mult2_eq)
  also have "\<dots> \<le> m * 2 ^ t + 2 ^ t"
    unfolding m_def by (intro add_right_mono mult_le_mono1 div_half_even_ge)
  finally have "a div b < m * 2 ^ t + 2 ^ t" .
  with half have "a div b < m * 2 ^ t + a div b div 2" by linarith
  then show ?thesis unfolding fr by linarith
qed

text \<open>Rounding does not go below a double that the exact quotient reaches.\<close>

lemma true_divide_at_least:
  assumes "0 < b" "b * (q * 2 ^ i) \<le> a" "2 ^ 53 \<le> q * 2 ^ i" "q * 2 ^ i \<le> 2 ^ (52 + i)"
    and "true_divide a b = Inr x"
  shows "q * 2 ^ i \<le> float_round x"
proof -
  define K where "K = q * 2 ^ i"
  have bK: "b * K \<le> a" and K53: "2 ^ 53 \<le> K" and Kup: "K \<le> 2 ^ (52 + i)"
    using assms(2-4) by (simp_all add: K_def)
  have "b * 2 ^ 53 \<le> b * K" using K53 by (rule mult_le_mono2)
  with bK have b53: "b * 2 ^ 53 \<le> a" by linarith
  have apos: "0 < a"
  proof (rule ccontr)
    assume "\<not> 0 < a"
    with assms(1) b53 show False by simp
  qed
  define e where "e = quotient_exponent a b"
  define t where "t = nat (e - 52)"
  have e53: "53 \<le> e"
    using quotient_exponent_upper [OF apos assms(1) b53] by (simp add: e_def)
  then have s: "max (e - 52) (- 1074) = int t" and et: "nat e = 52 + t"
    by (simp_all add: t_def)
  define m where "m = div_half_even a (b * 2 ^ t)"
  have "true_divide a b = (if 2 ^ 1024 \<le> m * 2 ^ t then Inl OverflowError else Inr (m, int t))"
    using assms(1) apos s by (simp add: true_divide_def Let_def e_def [symmetric] m_def)
  with assms(5) have x: "x = (m, int t)" by (simp split: if_splits)
  have fr: "float_round x = m * 2 ^ t" by (simp add: x float_round_def)
  have "K \<le> m * 2 ^ t"
  proof (cases "t \<le> i")
    case True
    then obtain r where r: "i = t + r" using le_Suc_ex by blast
    define p where "p = q * 2 ^ r"
    have Kp: "K = p * 2 ^ t" by (simp add: K_def p_def r power_add mult.assoc mult.commute [of "2 ^ t"])
    have "p * (b * 2 ^ t) \<le> a" using bK by (simp add: Kp mult.assoc mult.left_commute mult.commute)
    then have "p * (b * 2 ^ t) div (b * 2 ^ t) \<le> a div (b * 2 ^ t)" by (rule div_le_mono)
    then have "p \<le> a div (b * 2 ^ t)" using assms(1) by simp
    also have "\<dots> \<le> m" unfolding m_def by (rule div_half_even_ge)
    finally show ?thesis by (simp add: Kp)
  next
    case False
    then have "52 + i \<le> nat e" using et by linarith
    then have "(2::nat) ^ (52 + i) \<le> 2 ^ nat e" by (intro power_increasing) simp_all
    with Kup have Ke: "K \<le> 2 ^ nat e" by linarith
    have "b * 2 ^ nat e \<le> a"
      unfolding e_def by (rule quotient_exponent_lower [OF apos assms(1)]) (use e53 e_def in simp)
    then have "2 ^ 52 * (b * 2 ^ t) \<le> a"
      by (simp add: et power_add mult.assoc mult.left_commute mult.commute)
    then have "2 ^ 52 * (b * 2 ^ t) div (b * 2 ^ t) \<le> a div (b * 2 ^ t)" by (rule div_le_mono)
    then have "2 ^ 52 \<le> a div (b * 2 ^ t)" using assms(1) by simp
    also have "\<dots> \<le> m" unfolding m_def by (rule div_half_even_ge)
    finally have "2 ^ 52 * 2 ^ t \<le> m * 2 ^ t" by (rule mult_le_mono1)
    then have "2 ^ nat e \<le> m * 2 ^ t" by (simp add: et power_add)
    with Ke show ?thesis by linarith
  qed
  then show ?thesis by (simp add: fr K_def)
qed

subsection \<open>The decoded timestamp\<close>

lemma epoch_value: "datetime_jan1 1601 = 50491123200000000"
  by (simp add: datetime_jan1_def days_before_year_def us_per_day_def)

lemma datetime_max_value: "datetime_max = 315537897599999999"
  by (simp add: datetime_max_def datetime_jan1_def days_before_year_def us_per_day_def)

lemma parse_filetime_of_quotient:
  assumes "true_divide (from_bytes_little buf) 10 = Inr x"
    and "datetime_jan1 1601 + int (float_round x) \<le> datetime_max"
  shows "parse_filetime buf = Inr (PDatetime (datetime_jan1 1601 + int (float_round x)))"
proof -
  have "int (float_round x) \<le> 265046774399999999"
    using assms(2) by (simp add: epoch_value datetime_max_value)
  then have "\<not> 999999999 < int (float_round x) div us_per_day"
    by (simp add: us_per_day_def)
  then have "timedelta_microseconds x = Inr (int (float_round x))"
    by (simp add: timedelta_microseconds_def Let_def)
  moreover have "datetime_add (datetime_jan1 1601) (int (float_round x))
                   = Inr (datetime_jan1 1601 + int (float_round x))"
    using assms(2) by (simp add: datetime_add_def Let_def epoch_value)
  ultimately show ?thesis
    using assms(1) by (simp add: parse_filetime_def parse_filetime_try_def Let_def)
qed

lemma parse_filetime_large:
  assumes "2 ^ 64 \<le> from_bytes_little buf"
  shows "parse_filetime buf = Inr (PStr Unknown)"
proof (cases "true_divide (from_bytes_little buf) 10")
  case (Inl e)
  then show ?thesis by (simp add: parse_filetime_def parse_filetime_try_def Let_def)
next
  case (Inr x)
  have "(10::nat) * 2 ^ 53 \<le> 2 ^ 64" by simp
  with assms have "10 * 2 ^ 53 \<le> from_bytes_little buf" by linarith
  then have "from_bytes_little buf div 10 div 2 \<le> float_round x"
    using true_divide_large [of 10 "from_bytes_little buf" x] Inr by simp
  moreover have "(2::nat) ^ 64 div 10 div 2 \<le> from_bytes_little buf div 10 div 2"
    using assms by (intro div_le_mono)
  ultimately have big: "922337203685477580 \<le> float_round x" by simp
  then have "datetime_max < datetime_jan1 1601 + int (float_round x)"
    by (simp add: epoch_value datetime_max_value)
  then have "\<And>d. datetime_add (datetime_jan1 1601) (int (float_round x)) \<noteq> Inr d"
    by (simp add: datetime_add_def Let_def)
  then show ?thesis
    using Inr
    by (auto simp: parse_filetime_def parse_filetime_try_def timedelta_microseconds_def Let_def
        split: sum.splits)
qed

lemma parse_filetime_nonzero_tail:
  assumes "\<exists>b \<in> set (drop 8 buf). b \<noteq> 0"
  shows "parse_filetime buf = Inr (PStr Unknown)"
proof -
  have l: "length (take 8 buf) = 8"
  proof (rule ccontr)
    assume "length (take 8 buf) \<noteq> 8"
    then have "drop 8 buf = []" by simp
    with assms show False by simp
  qed
  have "0 < from_bytes_little (drop 8 buf)" using assms by (rule from_bytes_little_pos)
  then have "256 ^ 8 * 1 \<le> 256 ^ 8 * from_bytes_little (drop 8 buf)"
    by (intro mult_le_mono2) simp
  moreover have "from_bytes_little buf
        = from_bytes_little (take 8 buf) + 256 ^ 8 * from_bytes_little (drop 8 buf)"
    using from_bytes_little_append [of "take 8 buf" "drop 8 buf"] l
    by (simp only: append_take_drop_id)
  ultimately have "2 ^ 64 \<le> from_bytes_little buf" by simp
  then show ?thesis by (rule parse_filetime_large)
qed

lemma parse_filetime_past_max:
  assumes "2650467744000000000 \<le> from_bytes_little buf"
  shows "parse_filetime buf = Inr (PStr Unknown)"
proof (cases "true_divide (from_bytes_little buf) 10")
  case (Inl e)
  then show ?thesis by (simp add: parse_filetime_def parse_filetime_try_def Let_def)
next
  case (Inr x)
  have a: "10 * (32354342578125 * 2 ^ 13) \<le> from_bytes_little buf" using assms by simp
  have "32354342578125 * 2 ^ 13 \<le> float_round x"
    using true_divide_at_least [of 10 32354342578125 13 "from_bytes_little buf" x] a Inr
    by simp
  then have "265046774400000000 \<le> float_round x" by simp
  then have "datetime_max < datetime_jan1 1601 + int (float_round x)"
    by (simp add: epoch_value datetime_max_value)
  then have "\<And>d. datetime_add (datetime_jan1 1601) (int (float_round x)) \<noteq> Inr d"
    by (simp add: datetime_add_def Let_def)
  then show ?thesis
    using Inr
    by (auto simp: parse_filetime_def parse_filetime_try_def timedelta_microseconds_def Let_def
        split: sum.splits)
qed

lemma parse_filetime_zero_tail:
  assumes "\<forall>b \<in> set (drop 8 buf). b = 0"
  shows "parse_filetime buf = parse_filetime (take 8 buf)"
proof -
  from assms have "replicate (length (drop 8 buf)) 0 = drop 8 buf"
    by (rule replicate_length_same)
  then have "buf = take 8 buf @ replicate (length (drop 8 buf)) 0"
    by (simp only: append_take_drop_id)
  then have "from_bytes_little buf = from_bytes_little (take 8 buf)"
    by (metis from_bytes_little_append_zeros)
  then show ?thesis by (simp add: parse_filetime_def parse_filetime_try_def)
qed

lemmas filetime_eval =
  parse_filetime_def parse_filetime_try_def true_divide_def timedelta_microseconds_def
  float_round_def datetime_add_def datetime_max_def datetime_jan1_def days_before_year_def
  us_per_day_def quotient_exponent_def bit_length.simps div_half_even_def Let_def

text \<open>
  Claim C3 says that a buffer of fewer than 8 bytes decodes to \<open>"Unknown"\<close>.
  \<open>int.from_bytes\<close> accepts any length: the empty buffer is the integer 0 and
  decodes to 1601-01-01T00:00:00, the two bytes \<open>10 27\<close> are 10000 ticks and decode
  to one millisecond later.
\<close>

theorem parse_filetime_empty_is_epoch:
  "parse_filetime [] = Inr (PDatetime (datetime_jan1 1601)) \<and>
   PDatetime (datetime_jan1 1601) \<noteq> PStr Unknown \<and>
   parse_filetime [0x10, 0x27] = Inr (PDatetime (datetime_jan1 1601 + 1000))"
  by (simp add: filetime_eval)

text \<open>
  Claim C3, amended.  For every buffer \<open>_parse_filetime\<close> raises nothing and returns
  \<open>"Unknown"\<close> or a timestamp.  A buffer of fewer than 8 bytes, the empty one
  included, is not rejected: it decodes to a timestamp, not before 1601-01-01T00:00:00,
  and to the same one as the buffer padded with zero bytes to 8.
\<close>

theorem parse_filetime_undersized:
  "(parse_filetime buf = Inr (PStr Unknown) \<or> (\<exists>d. parse_filetime buf = Inr (PDatetime d))) \<and>
   (length buf < 8 \<longrightarrow>
      (\<exists>d. parse_filetime buf = Inr (PDatetime d) \<and> datetime_jan1 1601 \<le> d) \<and>
      parse_filetime buf = parse_filetime (buf @ replicate (8 - length buf) 0))"
proof (intro conjI impI)
  show "parse_filetime buf = Inr (PStr Unknown) \<or> (\<exists>d. parse_filetime buf = Inr (PDatetime d))"
    by (simp add: parse_filetime_def split: sum.splits)
next
  assume l: "length buf < 8"
  have "from_bytes_little buf < 256 ^ length buf" by (rule from_bytes_little_bound)
  also have "\<dots> \<le> (256::nat) ^ 7" using l by (intro power_increasing) simp_all
  finally have small: "from_bytes_little buf < 72057594037927936" by simp
  then have "from_bytes_little buf < 2 ^ 1000"
  proof -
    have "(72057594037927936::nat) = 2 ^ 56" by simp
    also have "\<dots> < 2 ^ 1000" by (intro power_strict_increasing) simp_all
    finally show ?thesis using small by linarith
  qed
  then obtain x where x: "true_divide (from_bytes_little buf) 10 = Inr x"
    and fr: "float_round x \<le> 2 * (from_bytes_little buf div 10) + 2"
    using true_divide_small [of "from_bytes_little buf" 10] by auto
  have "float_round x \<le> 14411518807585590" using fr small by linarith
  then have "datetime_jan1 1601 + int (float_round x) \<le> datetime_max"
    by (simp add: epoch_value datetime_max_value)
  then have "parse_filetime buf = Inr (PDatetime (datetime_jan1 1601 + int (float_round x)))"
    by (rule parse_filetime_of_quotient [OF x])
  then show "\<exists>d. parse_filetime buf = Inr (PDatetime d) \<and> datetime_jan1 1601 \<le> d"
    by simp
next
  show "parse_filetime buf = parse_filetime (buf @ replicate (8 - length buf) 0)"
    by (simp add: parse_filetime_def parse_filetime_try_def from_bytes_little_append_zeros)
qed

theorem parse_filetime_undersized_witness:
  "(\<exists>d. parse_filetime [0x10, 0x27, 0] = Inr (PDatetime d) \<and> datetime_jan1 1601 \<le> d) \<and>
   parse_filetime [0x10, 0x27, 0] = parse_filetime [0x10, 0x27, 0, 0, 0, 0, 0, 0]"
proof -
  have l: "length [0x10, 0x27, 0 :: byte] < 8" by simp
  have p: "[0x10, 0x27, 0 :: byte] @ replicate (8 - length [0x10, 0x27, 0 :: byte]) 0
             = [0x10, 0x27, 0, 0, 0, 0, 0, 0]"
    by (simp add: numeral_eq_Suc)
  show ?thesis
    using parse_filetime_undersized [of "[0x10, 0x27, 0]"] l unfolding p by blast
qed

text \<open>
  Claim C4 gives, for every 8-byte tick count \<open>t\<close>, the timestamp 1601-01-01T00:00:00
  plus \<open>t\<close> times 100 ns.  The largest tick count, \<open>2 ^ 64 - 1\<close>, is past the year
  9999 and decodes to \<open>"Unknown"\<close>.  One tick decodes to 1601-01-01T00:00:00 itself,
  since a \<open>datetime\<close> counts whole microseconds.  The tick count
  \<open>10 * (2 ^ 53 + 1)\<close> decodes to \<open>2 ^ 53\<close> microseconds after the epoch, one
  short, since the quotient is rounded to a double.
\<close>

theorem parse_filetime_out_of_range_or_rounded:
  "parse_filetime [0xFF, 0xFF, 0xFF, 0xFF, 0xFF, 0xFF, 0xFF, 0xFF] = Inr (PStr Unknown) \<and>
   from_bytes_little [1, 0, 0, 0, 0, 0, 0, 0] = 1 \<and>
   parse_filetime [1, 0, 0, 0, 0, 0, 0, 0] = Inr (PDatetime (datetime_jan1 1601)) \<and>
   from_bytes_little [0x0A, 0, 0, 0, 0, 0, 0x40, 0x01] = 10 * (2 ^ 53 + 1) \<and>
   parse_filetime [0x0A, 0, 0, 0, 0, 0, 0x40, 0x01]
     = Inr (PDatetime (datetime_jan1 1601 + 2 ^ 53))"
  by (simp add: filetime_eval)

text \<open>
  Claim C4, amended.  When the tick count is ten times a number of microseconds that
  has at most 53 significant bits (\<open>j * 2 ^ i\<close> with \<open>j \<le> 2 ^ 53\<close>) and that does
  not lead past the last \<open>datetime\<close>, \<open>_parse_filetime\<close> returns exactly
  1601-01-01T00:00:00 plus that many microseconds, which is the tick count times
  100 ns.  Tick count 0 decodes to exactly 1601-01-01T00:00:00.  A tick count of
  2650467744000000000 or more, which is 10000-01-01T00:00:00 or later, decodes to
  \<open>"Unknown"\<close>.
\<close>

theorem parse_filetime_exact_ticks:
  "(from_bytes_little buf = 10 * (j * 2 ^ i) \<longrightarrow> j \<le> 2 ^ 53 \<longrightarrow>
    datetime_jan1 1601 + int (j * 2 ^ i) \<le> datetime_max \<longrightarrow>
      parse_filetime buf = Inr (PDatetime (datetime_jan1 1601 + int (j * 2 ^ i)))) \<and>
   parse_filetime [0, 0, 0, 0, 0, 0, 0, 0] = Inr (PDatetime (datetime_jan1 1601)) \<and>
   (2650467744000000000 \<le> from_bytes_little buf \<longrightarrow>
      parse_filetime buf = Inr (PStr Unknown))"
proof (intro conjI impI)
  assume t: "from_bytes_little buf = 10 * (j * 2 ^ i)" and j: "j \<le> 2 ^ 53"
    and r: "datetime_jan1 1601 + int (j * 2 ^ i) \<le> datetime_max"
  show "parse_filetime buf = Inr (PDatetime (datetime_jan1 1601 + int (j * 2 ^ i)))"
  proof (cases "j = 0")
    case True
    then show ?thesis using t by (simp add: filetime_eval)
  next
    case False
    have "int (j * 2 ^ i) < 2 ^ 1024"
    proof -
      have "int (j * 2 ^ i) \<le> 315537897599999999"
        using r by (simp add: epoch_value datetime_max_value)
      also have "\<dots> < (2::int) ^ 64" by simp
      also have "\<dots> < 2 ^ 1024" by (intro power_strict_increasing) simp_all
      finally show ?thesis .
    qed
    then have b: "j * 2 ^ i < 2 ^ 1024"
      by (metis of_nat_less_iff of_nat_numeral of_nat_power)
    obtain x where x: "true_divide (j * 2 ^ i * 10) 10 = Inr x" and fr: "float_round x = j * 2 ^ i"
      using true_divide_exact [of 10 j i] False j b by auto
    have x': "true_divide (from_bytes_little buf) 10 = Inr x"
      using x t by (simp add: mult.commute)
    show ?thesis
      using parse_filetime_of_quotient [OF x'] r by (simp add: fr)
  qed
next
  show "parse_filetime [0, 0, 0, 0, 0, 0, 0, 0] = Inr (PDatetime (datetime_jan1 1601))"
    by (simp add: filetime_eval)
next
  assume "2650467744000000000 \<le> from_bytes_little buf"
  then show "parse_filetime buf = Inr (PStr Unknown)"
    by (rule parse_filetime_past_max)
qed

text \<open>
  The tick count 116444736000000000 decodes to 1970-01-01T00:00:00, and the tick
  count of 10000-01-01T00:00:00 to \<open>"Unknown"\<close>.
\<close>

theorem parse_filetime_exact_ticks_witness:
  "parse_filetime [0, 0x80, 0x3E, 0xD5, 0xDE, 0xB1, 0x9D, 0x01]
     = Inr (PDatetime (datetime_jan1 1970)) \<and>
   parse_filetime [0, 0x40, 0xC0, 0xD1, 0x5E, 0x5A, 0xC8, 0x24] = Inr (PStr Unknown)"
proof -
  have t: "from_bytes_little [0, 0x80, 0x3E, 0xD5, 0xDE, 0xB1, 0x9D, 0x01]
             = 10 * (45486225000000 * 2 ^ 8)" by simp
  have j: "(45486225000000::nat) \<le> 2 ^ 53" by simp
  have r: "datetime_jan1 1601 + int (45486225000000 * 2 ^ 8) \<le> datetime_max"
    by (simp add: epoch_value datetime_max_value)
  have "parse_filetime [0, 0x80, 0x3E, 0xD5, 0xDE, 0xB1, 0x9D, 0x01]
          = Inr (PDatetime (datetime_jan1 1601 + int (45486225000000 * 2 ^ 8)))"
    using parse_filetime_exact_ticks
      [of "[0, 0x80, 0x3E, 0xD5, 0xDE, 0xB1, 0x9D, 0x01]" 45486225000000 8]
      t j r by blast
  then have 1: "parse_filetime [0, 0x80, 0x3E, 0xD5, 0xDE, 0xB1, 0x9D, 0x01]
          = Inr (PDatetime (datetime_jan1 1970))"
    by (simp add: datetime_jan1_def days_before_year_def us_per_day_def)
  have u: "2650467744000000000 \<le> from_bytes_little [0, 0x40, 0xC0, 0xD1, 0x5E, 0x5A, 0xC8, 0x24]"
    by simp
  have 2: "parse_filetime [0, 0x40, 0xC0, 0xD1, 0x5E, 0x5A, 0xC8, 0x24] = Inr (PStr Unknown)"
    using parse_filetime_exact_ticks
      [of "[0, 0x40, 0xC0, 0xD1, 0x5E, 0x5A, 0xC8, 0x24]" 0 0] u by blast
  show ?thesis using 1 2 by blast
qed

text \<open>
  Claim C5 says that only the first 8 bytes of a longer buffer count.  Two buffers of
  nine bytes with the same first eight, all zero: with a ninth byte 0 the result is
  1601-01-01T00:00:00, with a ninth byte 1 it is \<open>"Unknown"\<close>.
\<close>

theorem parse_filetime_ninth_byte_matters:
  "take 8 [0, 0, 0, 0, 0, 0, 0, 0, 1 :: byte] = take 8 [0, 0, 0, 0, 0, 0, 0, 0, 0] \<and>
   parse_filetime [0, 0, 0, 0, 0, 0, 0, 0, 1] = Inr (PStr Unknown) \<and>
   parse_filetime [0, 0, 0, 0, 0, 0, 0, 0, 0] = Inr (PDatetime (datetime_jan1 1601))"
  by (simp add: filetime_eval)

text \<open>
  Claim C5, amended.  A buffer longer than 8 bytes is read whole, as one little-endian
  integer.  When every byte after the eighth is zero, the result is that of the first 8
  bytes; when one of them is not, the result is \<open>"Unknown"\<close>, whatever the first 8
  bytes are.
\<close>

theorem parse_filetime_longer_buffer:
  "8 < length buf \<Longrightarrow>
   parse_filetime buf =
     (if \<forall>b \<in> set (drop 8 buf). b = 0 then parse_filetime (take 8 buf)
      else Inr (PStr Unknown))"
  using parse_filetime_zero_tail [of buf] parse_filetime_nonzero_tail [of buf] by auto

theorem parse_filetime_longer_buffer_witness:
  "parse_filetime [0x10, 0x27, 0, 0, 0, 0, 0, 0, 0, 0]
     = parse_filetime [0x10, 0x27, 0, 0, 0, 0, 0, 0] \<and>
   parse_filetime [0x10, 0x27, 0, 0, 0, 0, 0, 0, 0, 2] = Inr (PStr Unknown)"
proof -
  have l1: "8 < length [0x10, 0x27, 0, 0, 0, 0, 0, 0, 0, 0 :: byte]" by simp
  have l2: "8 < length [0x10, 0x27, 0, 0, 0, 0, 0, 0, 0, 2 :: byte]" by simp
  show ?thesis
    using parse_filetime_longer_buffer [OF l1] parse_filetime_longer_buffer [OF l2] by simp
qed

end
